theory Spec2Isabelle
  imports Main "HOL-Library.Multiset"
begin

section \<open>The todo tracker of \<^verbatim>\<open>extensions/todo-tracker/index.ts\<close>\<close>

text \<open>
  The tracker keeps one module-level \<^verbatim>\<open>state\<close>, a tool \<^verbatim>\<open>todo\<close> whose
  \<^verbatim>\<open>execute\<close> switches on the requested action, and \<^verbatim>\<open>reconstructState\<close>,
  which rebuilds the state from the tool results found on the active branch of the session.

  JavaScript numbers are modelled as unbounded integers (ids, \<^verbatim>\<open>nextId\<close>) and
  naturals (counts, lengths); they are exact below \<open>2^53\<close>. Strings are byte lists, a
  character outside ASCII being its UTF-8 bytes. The module-level \<^verbatim>\<open>state\<close>
  is passed explicitly: every operation takes the state and returns the new one.

  The operations are given twice. Over values (\<^verbatim>\<open>execute\<close>,
  \<^verbatim>\<open>reconstructState\<close>) an item is its fields and a snapshot is the value it had
  when it was made; this is what one call does to the state it is given. Over a heap
  (\<^verbatim>\<open>executeR\<close>, \<^verbatim>\<open>reconstructStateR\<close>) items are objects and
  \<^verbatim>\<open>items\<close> is an array of references, as in the source, so that what a later
  call does to an object or an array that an earlier response shares is seen. The two agree
  on every call (\<^verbatim>\<open>agrees_execute\<close>).
\<close>

subsection \<open>Types\<close>

datatype TodoStatus = Pending | In_progress | Done | Skipped | Blocked

record TodoItem =
  item_id :: int
  item_text :: string
  status :: TodoStatus
  reason :: "string option"
  item_group :: "string option"

record TodoState =
  items :: "TodoItem list"
  nextId :: int
  listName :: "string option"

record TodoDetails = TodoState +
  action :: string
  error :: "string option"

text \<open>The tool's parameters (\<^verbatim>\<open>TodoParams\<close>); an optional field is an option.\<close>

record BatchEntry =
  entry_text :: string
  entry_group :: "string option"

record TodoParams =
  p_action :: string
  p_name :: "string option"
  p_text :: "string option"
  p_items :: "BatchEntry list option"
  p_id :: "int option"
  p_reason :: "string option"
  p_group :: "string option"

text \<open>What \<^verbatim>\<open>execute\<close> returns: one text block and the details.\<close>

record ToolResult =
  content :: string
  details :: TodoDetails

text \<open>
  The entries of a branch, as \<^verbatim>\<open>reconstructState\<close> reads them: the entry's type,
  and for a message its role, its tool name (tool results only) and its details.
\<close>

record Message =
  role :: string
  toolName :: "string option"
  msg_details :: "TodoDetails option"

datatype SessionEntry = MessageEntry Message | OtherEntry string

subsection \<open>Strings\<close>

definition digitChar :: "nat \<Rightarrow> char" where
  "digitChar d = char_of (48 + d)"

function showNat :: "nat \<Rightarrow> string" where
  "showNat n = (if n < 10 then [digitChar n] else showNat (n div 10) @ [digitChar (n mod 10)])"
  by pat_completeness auto
termination
  by (relation "measure (\<lambda>n. n)") auto

declare showNat.simps [simp del]

definition showInt :: "int \<Rightarrow> string" where
  "showInt i = (if i < 0 then CHR ''-'' # showNat (nat (- i)) else showNat (nat i))"

fun join :: "string \<Rightarrow> string list \<Rightarrow> string" where
  "join sep [] = []"
| "join sep [x] = x"
| "join sep (x # y # ys) = x @ sep @ join sep (y # ys)"

text \<open>\<^verbatim>\<open>v ? f(v) : ""\<close> for an optional string: undefined and the empty string are falsy.\<close>

definition whenSet :: "string option \<Rightarrow> (string \<Rightarrow> string) \<Rightarrow> string" where
  "whenSet v f = (case v of None \<Rightarrow> [] | Some s \<Rightarrow> if s = [] then [] else f s)"

definition newline :: string where
  "newline = [CHR 0x0A]"

subsection \<open>Status helpers\<close>

text \<open>A status is the string of its name in the source; \<^verbatim>\<open>statusName\<close> renders it.\<close>

fun statusName :: "TodoStatus \<Rightarrow> string" where
  "statusName Pending = ''pending''"
| "statusName In_progress = ''in_progress''"
| "statusName Done = ''done''"
| "statusName Skipped = ''skipped''"
| "statusName Blocked = ''blocked''"

fun STATUS_ICONS :: "TodoStatus \<Rightarrow> string" where
  "STATUS_ICONS Pending = [CHR 0xE2, CHR 0x97, CHR 0x8B]"
| "STATUS_ICONS In_progress = [CHR 0xE2, CHR 0x97, CHR 0x89]"
| "STATUS_ICONS Done = [CHR 0xE2, CHR 0x9C, CHR 0x93]"
| "STATUS_ICONS Skipped = [CHR 0xE2, CHR 0x8A, CHR 0x98]"
| "STATUS_ICONS Blocked = [CHR 0xE2, CHR 0x9C, CHR 0x97]"

definition formatItemPlain :: "TodoItem \<Rightarrow> string" where
  "formatItemPlain item =
     (let icon = STATUS_ICONS (status item);
          extra = whenSet (reason item) (\<lambda>r. '' ('' @ r @ '')'')
      in icon @ '' #'' @ showInt (item_id item) @ '': '' @ item_text item @ extra)"

text \<open>
  \<^verbatim>\<open>summaryText\<close>: the counting loop over the items, then one \<^verbatim>\<open>push\<close> per
  status with a non-zero count, in the order of the source.
\<close>

definition countStatus :: "TodoItem \<Rightarrow> (TodoStatus \<Rightarrow> nat) \<Rightarrow> (TodoStatus \<Rightarrow> nat)" where
  "countStatus item counts = counts(status item := counts (status item) + 1)"

definition summaryText :: "TodoItem list \<Rightarrow> string" where
  "summaryText its =
     (let counts = fold countStatus its (\<lambda>_. 0);
          parts0 = [];
          parts1 = (if counts Done \<noteq> 0 then parts0 @ [showNat (counts Done) @ '' done''] else parts0);
          parts2 = (if counts In_progress \<noteq> 0
                    then parts1 @ [showNat (counts In_progress) @ '' in progress''] else parts1);
          parts3 = (if counts Pending \<noteq> 0
                    then parts2 @ [showNat (counts Pending) @ '' pending''] else parts2);
          parts4 = (if counts Blocked \<noteq> 0
                    then parts3 @ [showNat (counts Blocked) @ '' blocked''] else parts3);
          parts5 = (if counts Skipped \<noteq> 0
                    then parts4 @ [showNat (counts Skipped) @ '' skipped''] else parts4)
      in showNat (length its) @ '' items: '' @ join '', '' parts5)"

subsection \<open>The extension\<close>

definition emptyState :: TodoState where
  "emptyState = \<lparr>items = [], nextId = 1, listName = None\<rparr>"

definition makeDetails :: "TodoState \<Rightarrow> string \<Rightarrow> string option \<Rightarrow> TodoDetails" where
  "makeDetails state act err =
     \<lparr>items = items state, nextId = nextId state, listName = listName state,
      action = act, error = err\<rparr>"

definition findItem :: "TodoState \<Rightarrow> int \<Rightarrow> TodoItem option" where
  "findItem state i = List.find (\<lambda>it. item_id it = i) (items state)"

text \<open>
  \<^verbatim>\<open>reconstructState\<close>: the loop over the branch keeps the snapshot of every tool
  result of the tool \<^verbatim>\<open>todo\<close> that has details, so the last one stays.
\<close>

fun reconstructLoop :: "SessionEntry list \<Rightarrow> TodoState \<Rightarrow> TodoState" where
  "reconstructLoop [] state = state"
| "reconstructLoop (OtherEntry t # rest) state = reconstructLoop rest state"
| "reconstructLoop (MessageEntry msg # rest) state =
     (if role msg \<noteq> ''toolResult'' \<or> toolName msg \<noteq> Some ''todo''
      then reconstructLoop rest state
      else (case msg_details msg of
              None \<Rightarrow> reconstructLoop rest state
            | Some d \<Rightarrow>
                reconstructLoop rest
                  \<lparr>items = items d, nextId = nextId d, listName = listName d\<rparr>))"

definition reconstructState :: "SessionEntry list \<Rightarrow> TodoState" where
  "reconstructState branch = reconstructLoop branch \<lparr>items = [], nextId = 1, listName = None\<rparr>"

text \<open>
  The cases of \<^verbatim>\<open>execute\<close>, one definition per \<^verbatim>\<open>case\<close> block.
  \<^verbatim>\<open>add\<close> and \<^verbatim>\<open>batch\<close> build the same item literal: the id (the
  value of \<^verbatim>\<open>state.nextId++\<close>), the text, the status \<^verbatim>\<open>"pending"\<close> and
  the group; no reason.
\<close>

definition pendingItem :: "int \<Rightarrow> string \<Rightarrow> string option \<Rightarrow> TodoItem" where
  "pendingItem i t g =
     \<lparr>item_id = i, item_text = t, status = Pending, reason = None, item_group = g\<rparr>"

definition execCreate :: "TodoState \<Rightarrow> TodoParams \<Rightarrow> TodoState \<times> ToolResult" where
  "execCreate state params =
     (let state' = \<lparr>items = [], nextId = 1, listName = p_name params\<rparr>
      in (state',
          \<lparr>content = ''Created todo list'' @ whenSet (p_name params) (\<lambda>n. '': '' @ n),
           details = makeDetails state' ''create'' None\<rparr>))"

definition execAdd :: "TodoState \<Rightarrow> TodoParams \<Rightarrow> TodoState \<times> ToolResult" where
  "execAdd state params =
     (case p_text params of
        None \<Rightarrow>
          (state, \<lparr>content = ''Error: text required for add'',
                   details = makeDetails state ''add'' (Some ''text required'')\<rparr>)
      | Some t \<Rightarrow>
          if t = [] then
            (state, \<lparr>content = ''Error: text required for add'',
                     details = makeDetails state ''add'' (Some ''text required'')\<rparr>)
          else
            (let item = pendingItem (nextId state) t (p_group params);
                 state' = state\<lparr>nextId := nextId state + 1, items := items state @ [item]\<rparr>
             in (state',
                 \<lparr>content = ''Added #'' @ showInt (item_id item) @ '': '' @ item_text item,
                  details = makeDetails state' ''add'' None\<rparr>)))"

text \<open>The loop of \<^verbatim>\<open>batch\<close>: the state and the list \<^verbatim>\<open>added\<close>.\<close>

fun batchLoop :: "BatchEntry list \<Rightarrow> TodoState \<Rightarrow> TodoItem list \<Rightarrow> TodoState \<times> TodoItem list" where
  "batchLoop [] state added = (state, added)"
| "batchLoop (entry # rest) state added =
     (let item = pendingItem (nextId state) (entry_text entry) (entry_group entry);
          state' = state\<lparr>nextId := nextId state + 1, items := items state @ [item]\<rparr>
      in batchLoop rest state' (added @ [item]))"

definition execBatch :: "TodoState \<Rightarrow> TodoParams \<Rightarrow> TodoState \<times> ToolResult" where
  "execBatch state params =
     (case p_items params of
        None \<Rightarrow>
          (state, \<lparr>content = ''Error: items array required for batch'',
                   details = makeDetails state ''batch'' (Some ''items required'')\<rparr>)
      | Some entries \<Rightarrow>
          if length entries = 0 then
            (state, \<lparr>content = ''Error: items array required for batch'',
                     details = makeDetails state ''batch'' (Some ''items required'')\<rparr>)
          else
            (let (state', added) = batchLoop entries state []
             in (state',
                 \<lparr>content = ''Added '' @ showNat (length added) @ '' items:'' @ newline @
                     join newline
                       (map (\<lambda>i. ''  #'' @ showInt (item_id i) @ '': '' @ item_text i) added),
                  details = makeDetails state' ''batch'' None\<rparr>)))"

text \<open>
  The five status cases share one block. \<^verbatim>\<open>statusMap\<close> has exactly their labels
  as keys. The found item is mutated in place: it is the first item with that id.
\<close>

definition statusMap :: "string \<rightharpoonup> TodoStatus" where
  "statusMap = map_of [(''start'', In_progress), (''done'', Done), (''skip'', Skipped),
                       (''block'', Blocked), (''reset'', Pending)]"

fun assignItem :: "int \<Rightarrow> TodoStatus \<Rightarrow> string option \<Rightarrow> TodoItem list \<Rightarrow> TodoItem list" where
  "assignItem i st r [] = []"
| "assignItem i st r (x # xs) =
     (if item_id x = i then x\<lparr>status := st, reason := r\<rparr> # xs
      else x # assignItem i st r xs)"

definition execStatus :: "TodoStatus \<Rightarrow> TodoState \<Rightarrow> TodoParams \<Rightarrow> TodoState \<times> ToolResult" where
  "execStatus st state params =
     (case p_id params of
        None \<Rightarrow>
          (state, \<lparr>content = ''Error: id required for '' @ p_action params,
                   details = makeDetails state (p_action params) (Some ''id required'')\<rparr>)
      | Some i \<Rightarrow>
          (case findItem state i of
             None \<Rightarrow>
               (state, \<lparr>content = ''Item #'' @ showInt i @ '' not found'',
                        details = makeDetails state (p_action params)
                                    (Some (''#'' @ showInt i @ '' not found''))\<rparr>)
           | Some found \<Rightarrow>
               (let item = found\<lparr>status := st, reason := p_reason params\<rparr>;
                    state' = state\<lparr>items := assignItem i st (p_reason params) (items state)\<rparr>
                in (state',
                    \<lparr>content = ''#'' @ showInt (item_id item) @
                        [CHR '' '', CHR 0xE2, CHR 0x86, CHR 0x92, CHR '' ''] @
                        statusName (status item) @
                        whenSet (reason item) (\<lambda>r. '' ('' @ r @ '')''),
                     details = makeDetails state' (p_action params) None\<rparr>))))"

definition execList :: "TodoState \<Rightarrow> TodoParams \<Rightarrow> TodoState \<times> ToolResult" where
  "execList state params =
     (if length (items state) = 0 then
        (state, \<lparr>content = ''No items'', details = makeDetails state ''list'' None\<rparr>)
      else
        (let header = whenSet (listName state) (\<lambda>n. n @ newline);
             txt = header @ join newline (map formatItemPlain (items state)) @
                   newline @ newline @ summaryText (items state)
         in (state, \<lparr>content = txt, details = makeDetails state ''list'' None\<rparr>)))"

definition execSummary :: "TodoState \<Rightarrow> TodoParams \<Rightarrow> TodoState \<times> ToolResult" where
  "execSummary state params =
     (state, \<lparr>content = summaryText (items state), details = makeDetails state ''summary'' None\<rparr>)"

definition execClear :: "TodoState \<Rightarrow> TodoParams \<Rightarrow> TodoState \<times> ToolResult" where
  "execClear state params =
     (let count = length (items state);
          state' = \<lparr>items = [], nextId = 1, listName = listName state\<rparr>
      in (state',
          \<lparr>content = ''Cleared '' @ showNat count @ '' items'',
           details = makeDetails state' ''clear'' None\<rparr>))"

definition execDefault :: "TodoState \<Rightarrow> TodoParams \<Rightarrow> TodoState \<times> ToolResult" where
  "execDefault state params =
     (state, \<lparr>content = ''Unknown action: '' @ p_action params,
              details = makeDetails state ''unknown''
                          (Some (''unknown action: '' @ p_action params))\<rparr>)"

definition execute :: "TodoState \<Rightarrow> TodoParams \<Rightarrow> TodoState \<times> ToolResult" where
  "execute state params =
     (if p_action params = ''create'' then execCreate state params
      else if p_action params = ''add'' then execAdd state params
      else if p_action params = ''batch'' then execBatch state params
      else (case statusMap (p_action params) of
              Some st \<Rightarrow> execStatus st state params
            | None \<Rightarrow>
                if p_action params = ''list'' then execList state params
                else if p_action params = ''summary'' then execSummary state params
                else if p_action params = ''clear'' then execClear state params
                else execDefault state params))"

subsection \<open>Requests, runs and the session log\<close>

text \<open>A request that gives the action only.\<close>

definition request :: "string \<Rightarrow> TodoParams" where
  "request a = \<lparr>p_action = a, p_name = None, p_text = None, p_items = None, p_id = None,
                 p_reason = None, p_group = None\<rparr>"

text \<open>Full replay: the reducer applied to every request in turn, from the default state.\<close>

definition replayFrom :: "TodoState \<Rightarrow> TodoParams list \<Rightarrow> TodoState" where
  "replayFrom state ps = foldl (\<lambda>s p. fst (execute s p)) state ps"

definition replay :: "TodoParams list \<Rightarrow> TodoState" where
  "replay ps = replayFrom emptyState ps"

text \<open>
  Modelled from the spec: the session log and its owner are outside the repository. The
  owner appends each response of the tool as a tool result of the tool \<^verbatim>\<open>todo\<close>
  that carries the response's details (an ActionRecord). Over values, \<^verbatim>\<open>logOf\<close>
  is the list of the records that a run of requests leaves, each as it was when it was
  appended. An entry belongs to the tracker when it is a tool result with the tracker's
  tool name.
\<close>

definition recordOf :: "ToolResult \<Rightarrow> SessionEntry" where
  "recordOf r =
     MessageEntry \<lparr>role = ''toolResult'', toolName = Some ''todo'', msg_details = Some (details r)\<rparr>"

fun logOf :: "TodoState \<Rightarrow> TodoParams list \<Rightarrow> SessionEntry list" where
  "logOf state [] = []"
| "logOf state (p # ps) = recordOf (snd (execute state p)) # logOf (fst (execute state p)) ps"

fun isTrackerRecord :: "SessionEntry \<Rightarrow> bool" where
  "isTrackerRecord (MessageEntry msg) = (role msg = ''toolResult'' \<and> toolName msg = Some ''todo'')"
| "isTrackerRecord (OtherEntry t) = False"

text \<open>
  The ids a call assigns: the ids of the items that \<^verbatim>\<open>add\<close> or \<^verbatim>\<open>batch\<close>
  appended to \<^verbatim>\<open>items\<close>; and the ids assigned over a run of requests, in order.
\<close>

definition assignedIds :: "TodoState \<Rightarrow> TodoParams \<Rightarrow> int list" where
  "assignedIds state params =
     (if p_action params = ''add'' \<or> p_action params = ''batch''
      then map item_id (drop (length (items state)) (items (fst (execute state params))))
      else [])"

fun assignedIdsOver :: "TodoState \<Rightarrow> TodoParams list \<Rightarrow> int list" where
  "assignedIdsOver state [] = []"
| "assignedIdsOver state (p # ps) =
     assignedIds state p @ assignedIdsOver (fst (execute state p)) ps"

text \<open>
  The error conditions as the specification words them: \<^verbatim>\<open>add\<close> fails when the text
  is missing or empty, \<^verbatim>\<open>batch\<close> when the list is missing or empty, a status action
  when the id is omitted or names no item, and an action kind that is not recognised fails.
\<close>

definition actionFails :: "TodoState \<Rightarrow> TodoParams \<Rightarrow> bool" where
  "actionFails state params =
     (if p_action params = ''add'' then p_text params = None \<or> p_text params = Some []
      else if p_action params = ''batch'' then p_items params = None \<or> p_items params = Some []
      else if p_action params \<in> set [''start'', ''done'', ''skip'', ''block'', ''reset'']
      then (case p_id params of
              None \<Rightarrow> True
            | Some i \<Rightarrow> i \<notin> item_id ` set (items state))
      else p_action params \<notin> set [''create'', ''list'', ''summary'', ''clear''])"

definition errorNonEmpty :: "TodoDetails \<Rightarrow> bool" where
  "errorNonEmpty d = (case error d of None \<Rightarrow> False | Some e \<Rightarrow> e \<noteq> [])"

text \<open>
  The summary line as the specification words it: the total, then the counts by status in
  the order done, in progress, pending, blocked, skipped, the zero counts left out.
\<close>

definition statusCount :: "TodoStatus \<Rightarrow> TodoItem list \<Rightarrow> nat" where
  "statusCount st its = length (filter (\<lambda>it. status it = st) its)"

definition summaryLine :: "TodoItem list \<Rightarrow> string" where
  "summaryLine its =
     showNat (length its) @ '' items: '' @
     join '', ''
       (map (\<lambda>(st, label). showNat (statusCount st its) @ '' '' @ label)
          (filter (\<lambda>(st, label). statusCount st its \<noteq> 0)
             [(Done, ''done''), (In_progress, ''in progress''), (Pending, ''pending''),
              (Blocked, ''blocked''), (Skipped, ''skipped'')]))"

text \<open>A response whose details carry the state that the call returns.\<close>

definition snapshotOk :: "TodoState \<times> ToolResult \<Rightarrow> bool" where
  "snapshotOk sr =
     (items (details (snd sr)) = items (fst sr) \<and>
      nextId (details (snd sr)) = nextId (fst sr) \<and>
      listName (details (snd sr)) = listName (fst sr))"

subsection \<open>Shared items and arrays\<close>

text \<open>
  In the source a \<^verbatim>\<open>TodoItem\<close> is an object and \<^verbatim>\<open>items\<close> is an array of
  references to such objects. \<^verbatim>\<open>makeDetails\<close> copies the array
  (\<^verbatim>\<open>[...state.items]\<close>) and not the items, a status action assigns to the fields of
  the item it found, \<^verbatim>\<open>push\<close> appends to the array that \<^verbatim>\<open>state.items\<close>
  refers to, and \<^verbatim>\<open>reconstructState\<close> takes \<^verbatim>\<open>details.items\<close> itself as the
  new \<^verbatim>\<open>state.items\<close>. Where a result depends on this sharing the operations are
  modelled over a heap: item objects and arrays live at references, a state and the details
  of a response hold the reference of their array. The other fields are numbers and strings
  and are never assigned through another object, so they stay values. The text of a response
  is a string and is the one of \<^verbatim>\<open>execute\<close> above.
\<close>

type_synonym ref = nat

record Heap =
  objects :: "ref \<Rightarrow> TodoItem option"
  arrays :: "ref \<Rightarrow> ref list option"
  nextRef :: ref

definition emptyHeap :: Heap where
  "emptyHeap = \<lparr>objects = (\<lambda>r. None), arrays = (\<lambda>r. None), nextRef = 0\<rparr>"

definition newArray :: "ref list \<Rightarrow> Heap \<Rightarrow> ref \<times> Heap" where
  "newArray refs h =
     (nextRef h, h\<lparr>arrays := (arrays h)(nextRef h \<mapsto> refs), nextRef := nextRef h + 1\<rparr>)"

definition newObject :: "TodoItem \<Rightarrow> Heap \<Rightarrow> ref \<times> Heap" where
  "newObject item h =
     (nextRef h, h\<lparr>objects := (objects h)(nextRef h \<mapsto> item), nextRef := nextRef h + 1\<rparr>)"

text \<open>Reading: the references an array holds, and the items they refer to, in order.\<close>

definition arrayAt :: "Heap \<Rightarrow> ref \<Rightarrow> ref list" where
  "arrayAt h a = (case arrays h a of None \<Rightarrow> [] | Some refs \<Rightarrow> refs)"

definition deref :: "Heap \<Rightarrow> ref list \<Rightarrow> TodoItem list" where
  "deref h refs =
     concat (map (\<lambda>r. case objects h r of None \<Rightarrow> [] | Some item \<Rightarrow> [item]) refs)"

definition itemsAt :: "Heap \<Rightarrow> ref \<Rightarrow> TodoItem list" where
  "itemsAt h a = deref h (arrayAt h a)"

text \<open>\<^verbatim>\<open>array.push(r)\<close>: the array at the reference grows in place.\<close>

definition push :: "ref \<Rightarrow> ref \<Rightarrow> Heap \<Rightarrow> Heap" where
  "push a r h = h\<lparr>arrays := (arrays h)(a \<mapsto> arrayAt h a @ [r])\<rparr>"

record StateR =
  r_items :: ref
  r_nextId :: int
  r_listName :: "string option"

record DetailsR = StateR +
  r_action :: string
  r_error :: "string option"

text \<open>The state that a state or the details of a response show when read through the heap.\<close>

definition stateOf :: "Heap \<Rightarrow> 'a StateR_scheme \<Rightarrow> TodoState" where
  "stateOf h s = \<lparr>items = itemsAt h (r_items s), nextId = r_nextId s, listName = r_listName s\<rparr>"

text \<open>The module's initial \<^verbatim>\<open>state = { items: [], nextId: 1 }\<close>, on an empty heap.\<close>

definition initR :: "Heap \<times> StateR" where
  "initR =
     (let (a, h) = newArray [] emptyHeap
      in (h, \<lparr>r_items = a, r_nextId = 1, r_listName = None\<rparr>))"

definition makeDetailsR :: "Heap \<Rightarrow> StateR \<Rightarrow> string \<Rightarrow> string option \<Rightarrow> Heap \<times> DetailsR" where
  "makeDetailsR h state act err =
     (let (a, h') = newArray (arrayAt h (r_items state)) h
      in (h', \<lparr>r_items = a, r_nextId = r_nextId state, r_listName = r_listName state,
               r_action = act, r_error = err\<rparr>))"

definition findItemR :: "Heap \<Rightarrow> StateR \<Rightarrow> int \<Rightarrow> ref option" where
  "findItemR h state i =
     List.find (\<lambda>r. case objects h r of None \<Rightarrow> False | Some item \<Rightarrow> item_id item = i)
       (arrayAt h (r_items state))"

text \<open>A response over the heap: the heap and the state after the call, and the details.\<close>

definition respond :: "Heap \<Rightarrow> StateR \<Rightarrow> string \<Rightarrow> string option \<Rightarrow> Heap \<times> StateR \<times> DetailsR" where
  "respond h state act err = (let (h', d) = makeDetailsR h state act err in (h', state, d))"

definition execCreateR :: "Heap \<Rightarrow> StateR \<Rightarrow> TodoParams \<Rightarrow> Heap \<times> StateR \<times> DetailsR" where
  "execCreateR h state params =
     (let (a, h') = newArray [] h
      in respond h' \<lparr>r_items = a, r_nextId = 1, r_listName = p_name params\<rparr> ''create'' None)"

definition addItemR :: "Heap \<Rightarrow> StateR \<Rightarrow> string \<Rightarrow> string option \<Rightarrow> Heap \<times> StateR" where
  "addItemR h state t g =
     (let (r, h') = newObject (pendingItem (r_nextId state) t g) h
      in (push (r_items state) r h', state\<lparr>r_nextId := r_nextId state + 1\<rparr>))"

definition execAddR :: "Heap \<Rightarrow> StateR \<Rightarrow> TodoParams \<Rightarrow> Heap \<times> StateR \<times> DetailsR" where
  "execAddR h state params =
     (case p_text params of
        None \<Rightarrow> respond h state ''add'' (Some ''text required'')
      | Some t \<Rightarrow>
          if t = [] then respond h state ''add'' (Some ''text required'')
          else (let (h', state') = addItemR h state t (p_group params)
                in respond h' state' ''add'' None))"

fun batchLoopR :: "BatchEntry list \<Rightarrow> Heap \<Rightarrow> StateR \<Rightarrow> Heap \<times> StateR" where
  "batchLoopR [] h state = (h, state)"
| "batchLoopR (entry # rest) h state =
     (let (h', state') = addItemR h state (entry_text entry) (entry_group entry)
      in batchLoopR rest h' state')"

definition execBatchR :: "Heap \<Rightarrow> StateR \<Rightarrow> TodoParams \<Rightarrow> Heap \<times> StateR \<times> DetailsR" where
  "execBatchR h state params =
     (case p_items params of
        None \<Rightarrow> respond h state ''batch'' (Some ''items required'')
      | Some entries \<Rightarrow>
          if length entries = 0 then respond h state ''batch'' (Some ''items required'')
          else (let (h', state') = batchLoopR entries h state
                in respond h' state' ''batch'' None))"

text \<open>
  The status cases: \<^verbatim>\<open>findItem\<close> yields the reference of the first item with the
  id, and the assignments to \<^verbatim>\<open>item.status\<close> and \<^verbatim>\<open>item.reason\<close> change
  the object at that reference, for every array that holds it. A reference in an array
  always has its object; the case without one below is there to make the function total
  and does not arise on a well-formed heap.
\<close>

definition execStatusR ::
  "TodoStatus \<Rightarrow> Heap \<Rightarrow> StateR \<Rightarrow> TodoParams \<Rightarrow> Heap \<times> StateR \<times> DetailsR" where
  "execStatusR st h state params =
     (case p_id params of
        None \<Rightarrow> respond h state (p_action params) (Some ''id required'')
      | Some i \<Rightarrow>
          (case findItemR h state i of
             None \<Rightarrow>
               respond h state (p_action params) (Some (''#'' @ showInt i @ '' not found''))
           | Some r \<Rightarrow>
               (case objects h r of
                  None \<Rightarrow>
                    respond h state (p_action params) (Some (''#'' @ showInt i @ '' not found''))
                | Some item \<Rightarrow>
                    respond
                      (h\<lparr>objects := (objects h)(r \<mapsto> item\<lparr>status := st, reason := p_reason params\<rparr>)\<rparr>)
                      state (p_action params) None)))"

definition execClearR :: "Heap \<Rightarrow> StateR \<Rightarrow> TodoParams \<Rightarrow> Heap \<times> StateR \<times> DetailsR" where
  "execClearR h state params =
     (let (a, h') = newArray [] h
      in respond h' \<lparr>r_items = a, r_nextId = 1, r_listName = r_listName state\<rparr> ''clear'' None)"

definition executeR :: "Heap \<Rightarrow> StateR \<Rightarrow> TodoParams \<Rightarrow> Heap \<times> StateR \<times> DetailsR" where
  "executeR h state params =
     (if p_action params = ''create'' then execCreateR h state params
      else if p_action params = ''add'' then execAddR h state params
      else if p_action params = ''batch'' then execBatchR h state params
      else (case statusMap (p_action params) of
              Some st \<Rightarrow> execStatusR st h state params
            | None \<Rightarrow>
                if p_action params = ''list'' then respond h state ''list'' None
                else if p_action params = ''summary'' then respond h state ''summary'' None
                else if p_action params = ''clear'' then execClearR h state params
                else respond h state ''unknown''
                       (Some (''unknown action: '' @ p_action params))))"

text \<open>
  Modelled from the spec: the session log and its owner are outside the repository. The
  owner keeps, in a tool result of the tool \<^verbatim>\<open>todo\<close>, the details object that the
  call returned, and hands the same object to \<^verbatim>\<open>reconstructState\<close> when the entry
  is on the branch.
\<close>

record MessageR =
  m_role :: string
  m_toolName :: "string option"
  m_details :: "DetailsR option"

datatype SessionEntryR = MessageEntryR MessageR | OtherEntryR string

definition recordR :: "DetailsR \<Rightarrow> SessionEntryR" where
  "recordR d = MessageEntryR \<lparr>m_role = ''toolResult'', m_toolName = Some ''todo'', m_details = Some d\<rparr>"

fun reconstructLoopR :: "SessionEntryR list \<Rightarrow> StateR \<Rightarrow> StateR" where
  "reconstructLoopR [] state = state"
| "reconstructLoopR (OtherEntryR t # rest) state = reconstructLoopR rest state"
| "reconstructLoopR (MessageEntryR msg # rest) state =
     (if m_role msg \<noteq> ''toolResult'' \<or> m_toolName msg \<noteq> Some ''todo''
      then reconstructLoopR rest state
      else (case m_details msg of
              None \<Rightarrow> reconstructLoopR rest state
            | Some d \<Rightarrow>
                reconstructLoopR rest
                  \<lparr>r_items = r_items d, r_nextId = r_nextId d, r_listName = r_listName d\<rparr>))"

definition reconstructStateR :: "Heap \<Rightarrow> SessionEntryR list \<Rightarrow> Heap \<times> StateR" where
  "reconstructStateR h branch =
     (let (a, h') = newArray [] h
      in (h', reconstructLoopR branch \<lparr>r_items = a, r_nextId = 1, r_listName = None\<rparr>))"

text \<open>
  Modelled from the spec: a session as the tracker sees it. A call of the tool runs
  \<^verbatim>\<open>execute\<close> and the log owner appends the record of the response to the active
  branch. A move of the branch tip back to the \<open>n\<close>-th entry of the branch leaves the
  first \<open>n\<close> entries as the active branch and triggers \<^verbatim>\<open>reconstructState\<close> over
  them (the handlers of \<^verbatim>\<open>session_tree\<close>, \<^verbatim>\<open>session_fork\<close> and
  \<^verbatim>\<open>session_switch\<close>). The heap is the same throughout.
\<close>

datatype Event = Call TodoParams | Moved nat

fun session ::
  "Heap \<Rightarrow> StateR \<Rightarrow> SessionEntryR list \<Rightarrow> Event list \<Rightarrow> Heap \<times> StateR \<times> SessionEntryR list" where
  "session h state branch [] = (h, state, branch)"
| "session h state branch (Call params # events) =
     (let (h', state', d) = executeR h state params
      in session h' state' (branch @ [recordR d]) events)"
| "session h state branch (Moved n # events) =
     (let (h', state') = reconstructStateR h (take n branch)
      in session h' state' (take n branch) events)"

text \<open>
  The state of the tracker after a session from the module's initial state, read through
  the heap, and the actions of the records on the branch that is active then.
\<close>

definition sessionState :: "Event list \<Rightarrow> TodoState" where
  "sessionState events =
     (let (h0, state0) = initR;
          (h, state, branch) = session h0 state0 [] events
      in stateOf h state)"

fun recordedAction :: "SessionEntryR \<Rightarrow> string list" where
  "recordedAction (MessageEntryR msg) =
     (case m_details msg of None \<Rightarrow> [] | Some d \<Rightarrow> [r_action d])"
| "recordedAction (OtherEntryR t) = []"

definition sessionActions :: "Event list \<Rightarrow> string list" where
  "sessionActions events =
     (let (h0, state0) = initR;
          (h, state, branch) = session h0 state0 [] events
      in concat (map recordedAction branch))"

text \<open>An entry whose snapshot \<^verbatim>\<open>reconstructState\<close> takes: a tool result of the tool
  \<^verbatim>\<open>todo\<close> that has details.\<close>

fun carriesSnapshot :: "SessionEntry \<Rightarrow> bool" where
  "carriesSnapshot (MessageEntry msg) =
     (role msg = ''toolResult'' \<and> toolName msg = Some ''todo'' \<and> msg_details msg \<noteq> None)"
| "carriesSnapshot (OtherEntry t) = False"

text \<open>
  A heap in which the array of a state holds distinct references to existing items, all
  allocated: what the operations above keep for the state they return.
\<close>

definition wfR :: "Heap \<Rightarrow> 'a StateR_scheme \<Rightarrow> bool" where
  "wfR h s =
     (case arrays h (r_items s) of
        None \<Rightarrow> False
      | Some refs \<Rightarrow>
          r_items s < nextRef h \<and> distinct refs \<and>
          list_all (\<lambda>r. r < nextRef h \<and> objects h r \<noteq> None) refs)"

text \<open>
  A response over the heap agrees with a response over values when the state it returns is
  well formed and reads as the state over values, and its details read, when they are made,
  as that same state, with the action and the error of the details over values.
\<close>

definition agrees :: "Heap \<times> StateR \<times> DetailsR \<Rightarrow> TodoState \<times> ToolResult \<Rightarrow> bool" where
  "agrees hr vr =
     (case hr of (h, s, d) \<Rightarrow>
        wfR h s \<and> stateOf h s = fst vr \<and> stateOf h d = fst vr \<and>
        r_action d = action (details (snd vr)) \<and> r_error d = error (details (snd vr)))"

subsection \<open>Basic facts\<close>

lemma showNat_0: "showNat 0 = ''0''"
  by code_simp

lemma summaryText_Nil: "summaryText [] = ''0 items: ''"
  by (simp add: summaryText_def showNat_0)

subsection \<open>Dispatch\<close>

lemma statusMap_SomeD:
  "statusMap a = Some st \<Longrightarrow>
   (a, st) \<in> set [(''start'', In_progress), (''done'', Done), (''skip'', Skipped),
                  (''block'', Blocked), (''reset'', Pending)]"
  unfolding statusMap_def by (rule map_of_SomeD)

lemma execute_create: "p_action params = ''create'' \<Longrightarrow> execute state params = execCreate state params"
  by (simp add: execute_def)

lemma execute_add: "p_action params = ''add'' \<Longrightarrow> execute state params = execAdd state params"
  by (simp add: execute_def)

lemma execute_batch: "p_action params = ''batch'' \<Longrightarrow> execute state params = execBatch state params"
  by (simp add: execute_def)

lemma execute_status:
  "statusMap (p_action params) = Some st \<Longrightarrow> execute state params = execStatus st state params"
  by (frule statusMap_SomeD) (auto simp add: execute_def)

lemma execute_list: "p_action params = ''list'' \<Longrightarrow> execute state params = execList state params"
  by (simp add: execute_def statusMap_def)

lemma execute_summary: "p_action params = ''summary'' \<Longrightarrow> execute state params = execSummary state params"
  by (simp add: execute_def statusMap_def)

lemma execute_clear: "p_action params = ''clear'' \<Longrightarrow> execute state params = execClear state params"
  by (simp add: execute_def statusMap_def)

subsection \<open>The summary of the empty list\<close>

text \<open>
  C10. When \<^verbatim>\<open>items\<close> is empty the summary line is exactly \<^verbatim>\<open>"0 items: "\<close>: the
  total, the colon and the space, and no status part; the action \<^verbatim>\<open>summary\<close> returns
  this string as its text for a state without items.
\<close>

theorem summary_empty:
  "summaryText [] = ''0 items: '' \<and>
   (items state = [] \<longrightarrow> p_action params = ''summary'' \<longrightarrow>
      content (snd (execute state params)) = ''0 items: '')"
  by (simp add: execute_summary execSummary_def summaryText_Nil)

theorem summary_empty_witness:
  "summaryText [] = ''0 items: '' \<and> items emptyState = [] \<and>
   p_action (request ''summary'') = ''summary'' \<and>
   content (snd (execute emptyState (request ''summary''))) = ''0 items: ''"
  using summary_empty [of emptyState "request ''summary''"]
  by (simp add: emptyState_def request_def)

subsection \<open>Clearing the list\<close>

text \<open>
  C2, as the specification states it: \<^verbatim>\<open>clear\<close> empties \<^verbatim>\<open>items\<close> and keeps
  \<^verbatim>\<open>nextId\<close> and \<^verbatim>\<open>listName\<close>. The code writes \<^verbatim>\<open>nextId: 1\<close> in the
  state it builds, so \<^verbatim>\<open>nextId\<close> is not kept: after one \<^verbatim>\<open>add\<close> it is 2, and
  \<^verbatim>\<open>clear\<close> makes it 1.
\<close>

theorem clear_keeps_nextId_counterexample:
  "\<not> (nextId (fst (execute \<lparr>items = [pendingItem 1 ''a'' None], nextId = 2, listName = None\<rparr>
                       (request ''clear'')))
       = nextId \<lparr>items = [pendingItem 1 ''a'' None], nextId = 2, listName = None\<rparr>)"
  by (simp add: execute_clear execClear_def request_def Let_def)

text \<open>
  C2, amended: for every state, \<^verbatim>\<open>clear\<close> yields a state whose \<^verbatim>\<open>items\<close> is
  empty, whose \<^verbatim>\<open>nextId\<close> is 1 and whose \<^verbatim>\<open>listName\<close> is the one before the
  call; the response carries no error.
\<close>

theorem clear_resets:
  assumes "p_action params = ''clear''"
  shows "items (fst (execute state params)) = [] \<and>
         nextId (fst (execute state params)) = 1 \<and>
         listName (fst (execute state params)) = listName state \<and>
         error (details (snd (execute state params))) = None"
  using assms by (simp add: execute_clear execClear_def makeDetails_def Let_def)

theorem clear_resets_witness:
  "p_action (request ''clear'') = ''clear'' \<and>
   items (fst (execute \<lparr>items = [pendingItem 1 ''a'' None], nextId = 2, listName = Some ''Auth''\<rparr>
                  (request ''clear''))) = [] \<and>
   nextId (fst (execute \<lparr>items = [pendingItem 1 ''a'' None], nextId = 2, listName = Some ''Auth''\<rparr>
                  (request ''clear''))) = 1 \<and>
   listName (fst (execute \<lparr>items = [pendingItem 1 ''a'' None], nextId = 2, listName = Some ''Auth''\<rparr>
                  (request ''clear''))) = Some ''Auth'' \<and>
   error (details (snd (execute \<lparr>items = [pendingItem 1 ''a'' None], nextId = 2,
                                 listName = Some ''Auth''\<rparr> (request ''clear'')))) = None"
  using clear_resets [of "request ''clear''"
      "\<lparr>items = [pendingItem 1 ''a'' None], nextId = 2, listName = Some ''Auth''\<rparr>"]
  by (simp add: request_def)

subsection \<open>Reconstruction\<close>

lemma reconstructLoop_skip:
  "\<not> isTrackerRecord e \<Longrightarrow> reconstructLoop (e # rest) state = reconstructLoop rest state"
  by (cases e) auto

lemma reconstructLoop_filter:
  "reconstructLoop (filter isTrackerRecord branch) state = reconstructLoop branch state"
proof (induction branch arbitrary: state)
  case Nil
  show ?case by simp
next
  case (Cons e branch)
  show ?case
  proof (cases "isTrackerRecord e")
    case True
    then obtain msg where e: "e = MessageEntry msg" by (cases e) auto
    with True Cons.IH show ?thesis by (simp split: option.split)
  next
    case False
    with Cons.IH show ?thesis by (simp add: reconstructLoop_skip)
  qed
qed

text \<open>
  C9. On a branch with no record of the tracker (no tool result of the tool
  \<^verbatim>\<open>todo\<close>), \<^verbatim>\<open>reconstructState\<close> yields the default state: no items,
  \<^verbatim>\<open>nextId\<close> 1, no \<^verbatim>\<open>listName\<close>. The function has no error result: it returns
  a state on every branch.
\<close>

theorem reconstruct_bootstrap:
  assumes "\<forall>e \<in> set branch. \<not> isTrackerRecord e"
  shows "reconstructState branch = \<lparr>items = [], nextId = 1, listName = None\<rparr>"
proof -
  from assms have "filter isTrackerRecord branch = []"
    by (simp add: filter_empty_conv)
  then have "reconstructLoop branch \<lparr>items = [], nextId = 1, listName = None\<rparr>
             = reconstructLoop [] \<lparr>items = [], nextId = 1, listName = None\<rparr>"
    using reconstructLoop_filter [of branch] by metis
  then show ?thesis by (simp add: reconstructState_def)
qed

theorem reconstruct_bootstrap_witness:
  "\<not> isTrackerRecord (OtherEntry ''model_change'') \<and>
   \<not> isTrackerRecord (MessageEntry \<lparr>role = ''user'', toolName = None, msg_details = None\<rparr>) \<and>
   \<not> isTrackerRecord
        (MessageEntry \<lparr>role = ''toolResult'', toolName = Some ''bash'', msg_details = None\<rparr>) \<and>
   reconstructState
     [OtherEntry ''model_change'',
      MessageEntry \<lparr>role = ''user'', toolName = None, msg_details = None\<rparr>,
      MessageEntry \<lparr>role = ''toolResult'', toolName = Some ''bash'', msg_details = None\<rparr>]
   = \<lparr>items = [], nextId = 1, listName = None\<rparr>"
  using reconstruct_bootstrap
    [of "[OtherEntry ''model_change'',
          MessageEntry \<lparr>role = ''user'', toolName = None, msg_details = None\<rparr>,
          MessageEntry \<lparr>role = ''toolResult'', toolName = Some ''bash'', msg_details = None\<rparr>]"]
  by simp

text \<open>Every case of \<^verbatim>\<open>execute\<close> puts the state it returns into the details.\<close>

lemma snapshot_create: "snapshotOk (execCreate state params)"
  by (simp add: snapshotOk_def execCreate_def makeDetails_def)

lemma snapshot_add: "snapshotOk (execAdd state params)"
  by (simp add: snapshotOk_def execAdd_def makeDetails_def Let_def split: option.split)

lemma snapshot_batch: "snapshotOk (execBatch state params)"
  by (simp add: snapshotOk_def execBatch_def makeDetails_def Let_def
      split: option.split prod.split)

lemma snapshot_status: "snapshotOk (execStatus st state params)"
  by (simp add: snapshotOk_def execStatus_def makeDetails_def Let_def split: option.split)

lemma snapshot_list: "snapshotOk (execList state params)"
  by (simp add: snapshotOk_def execList_def makeDetails_def Let_def)

lemma snapshot_summary: "snapshotOk (execSummary state params)"
  by (simp add: snapshotOk_def execSummary_def makeDetails_def)

lemma snapshot_clear: "snapshotOk (execClear state params)"
  by (simp add: snapshotOk_def execClear_def makeDetails_def Let_def)

lemma snapshot_default: "snapshotOk (execDefault state params)"
  by (simp add: snapshotOk_def execDefault_def makeDetails_def)

lemma snapshot_execute: "snapshotOk (execute state params)"
  unfolding execute_def
  by (simp add: snapshot_create snapshot_add snapshot_batch snapshot_status snapshot_list
      snapshot_summary snapshot_clear snapshot_default split: option.split)

lemma details_snapshot:
  "\<lparr>items = items (details (snd (execute state params))),
    nextId = nextId (details (snd (execute state params))),
    listName = listName (details (snd (execute state params)))\<rparr> = fst (execute state params)"
  using snapshot_execute [of state params] by (simp add: snapshotOk_def)

lemma reconstructLoop_logOf:
  "ps \<noteq> [] \<Longrightarrow> reconstructLoop (logOf state ps) state0 = replayFrom state ps"
proof (induction ps arbitrary: state state0)
  case Nil
  then show ?case by simp
next
  case (Cons p ps)
  show ?case
  proof (cases "ps = []")
    case True
    then show ?thesis by (simp add: recordOf_def details_snapshot replayFrom_def)
  next
    case False
    from Cons.IH [OF False] show ?thesis
      by (simp add: recordOf_def details_snapshot replayFrom_def)
  qed
qed

lemma reconstructLoop_carriers:
  "reconstructLoop (filter carriesSnapshot branch) state = reconstructLoop branch state"
proof (induction branch arbitrary: state)
  case Nil
  show ?case by simp
next
  case (Cons e branch)
  show ?case
  proof (cases e)
    case (MessageEntry msg)
    with Cons.IH show ?thesis by (cases "msg_details msg") auto
  next
    case (OtherEntry t)
    with Cons.IH show ?thesis by simp
  qed
qed

text \<open>
  With a log of values, that is, when every record on the branch still reads as the
  response read when it was appended, \<^verbatim>\<open>reconstructState\<close> yields what replaying
  the requests through \<^verbatim>\<open>execute\<close> yields: the entries whose snapshot it takes
  are the responses of the run, and every response carries the state after its call.
\<close>

lemma reconstruct_is_replay_of_values:
  assumes "filter carriesSnapshot branch = logOf emptyState ps"
  shows "reconstructState branch = replay ps"
proof (cases "ps = []")
  case True
  with assms have "reconstructLoop (filter carriesSnapshot branch) emptyState = emptyState"
    by simp
  then show ?thesis
    using True
    by (simp add: reconstructLoop_carriers reconstructState_def replay_def replayFrom_def
        emptyState_def)
next
  case False
  have "reconstructLoop branch emptyState = reconstructLoop (logOf emptyState ps) emptyState"
    using assms reconstructLoop_carriers [of branch emptyState] by simp
  also have "\<dots> = replayFrom emptyState ps"
    using False by (rule reconstructLoop_logOf)
  finally show ?thesis
    by (simp add: reconstructState_def replay_def emptyState_def)
qed

subsection \<open>Reconstruction over shared items and arrays\<close>

text \<open>
  On a well-formed heap every call over the heap agrees with \<^verbatim>\<open>execute\<close> over
  values: the state it returns, and the details at the moment they are made, read as the
  state that \<^verbatim>\<open>execute\<close> returns.
\<close>

lemma deref_cong:
  "\<forall>r \<in> set refs. objects h' r = objects h r \<Longrightarrow> deref h' refs = deref h refs"
  by (induction refs) (simp_all add: deref_def)

lemma deref_append: "deref h (xs @ ys) = deref h xs @ deref h ys"
  by (simp add: deref_def)

lemma wfR_D:
  "wfR h s \<Longrightarrow>
   \<exists>refs. arrays h (r_items s) = Some refs \<and> r_items s < nextRef h \<and> distinct refs \<and>
     (\<forall>r \<in> set refs. r < nextRef h \<and> objects h r \<noteq> None)"
  by (auto simp add: wfR_def list_all_iff split: option.splits)

lemma wfR_I:
  "arrays h (r_items s) = Some refs \<Longrightarrow> r_items s < nextRef h \<Longrightarrow> distinct refs \<Longrightarrow>
   \<forall>r \<in> set refs. r < nextRef h \<and> objects h r \<noteq> None \<Longrightarrow> wfR h s"
  by (simp add: wfR_def list_all_iff)

lemma respond_refines:
  assumes "wfR h s" and "respond h s act err = (h', s', d)"
  shows "s' = s \<and> wfR h' s \<and> stateOf h' s = stateOf h s \<and> stateOf h' d = stateOf h s \<and>
         r_action d = act \<and> r_error d = err"
proof -
  from wfR_D [OF assms(1)] obtain refs where
    r: "arrays h (r_items s) = Some refs" "r_items s < nextRef h" "distinct refs"
       "\<forall>r \<in> set refs. r < nextRef h \<and> objects h r \<noteq> None"
    by blast
  from assms(2) r(1) have h': "h' = h\<lparr>arrays := (arrays h)(nextRef h \<mapsto> refs), nextRef := nextRef h + 1\<rparr>"
    and s': "s' = s"
    and d: "d = \<lparr>r_items = nextRef h, r_nextId = r_nextId s, r_listName = r_listName s,
                 r_action = act, r_error = err\<rparr>"
    by (auto simp add: respond_def makeDetailsR_def newArray_def arrayAt_def Let_def)
  have w: "wfR h' s"
    using r by (intro wfR_I [of _ _ refs]) (auto simp add: h')
  have a: "stateOf h' s = stateOf h s"
    using r by (simp add: stateOf_def itemsAt_def arrayAt_def h' deref_def)
  have b: "stateOf h' d = stateOf h s"
    using r by (simp add: stateOf_def itemsAt_def arrayAt_def h' d deref_def)
  from s' w a b d show ?thesis by simp
qed


lemma addItemR_refines:
  assumes "wfR h s" and "addItemR h s t g = (h', s')"
  shows "wfR h' s' \<and>
         stateOf h' s' =
           (stateOf h s)\<lparr>nextId := nextId (stateOf h s) + 1,
                          items := items (stateOf h s) @ [pendingItem (nextId (stateOf h s)) t g]\<rparr>"
proof -
  from wfR_D [OF assms(1)] obtain refs where
    r: "arrays h (r_items s) = Some refs" "r_items s < nextRef h" "distinct refs"
       "\<forall>r \<in> set refs. r < nextRef h \<and> objects h r \<noteq> None"
    by blast
  let ?item = "pendingItem (r_nextId s) t g"
  from assms(2) r(1) have h': "h' = h\<lparr>objects := (objects h)(nextRef h \<mapsto> ?item),
        arrays := (arrays h)(r_items s \<mapsto> refs @ [nextRef h]), nextRef := nextRef h + 1\<rparr>"
    and s': "s' = s\<lparr>r_nextId := r_nextId s + 1\<rparr>"
    by (auto simp add: addItemR_def newObject_def push_def arrayAt_def Let_def)
  have fresh: "nextRef h \<notin> set refs" using r(4) by auto
  have w: "wfR h' s'"
    using r fresh by (intro wfR_I [of _ _ "refs @ [nextRef h]"]) (auto simp add: h' s')
  have "deref h' refs = deref h refs"
    using fresh by (intro deref_cong) (auto simp add: h')
  then have "itemsAt h' (r_items s') = itemsAt h (r_items s) @ [?item]"
    using r(1) by (simp add: itemsAt_def arrayAt_def h' s' deref_append) (simp add: deref_def)
  then have "stateOf h' s' =
           (stateOf h s)\<lparr>nextId := nextId (stateOf h s) + 1,
                          items := items (stateOf h s) @ [pendingItem (nextId (stateOf h s)) t g]\<rparr>"
    by (simp add: stateOf_def s')
  with w show ?thesis by simp
qed

lemma batchLoopR_refines:
  "wfR h s \<Longrightarrow> batchLoopR es h s = (h', s') \<Longrightarrow>
   wfR h' s' \<and> stateOf h' s' = fst (batchLoop es (stateOf h s) added)"
proof (induction es arbitrary: h s added)
  case Nil
  then show ?case by simp
next
  case (Cons e es)
  obtain h1 s1 where a: "addItemR h s (entry_text e) (entry_group e) = (h1, s1)"
    by (cases "addItemR h s (entry_text e) (entry_group e)") auto
  from addItemR_refines [OF Cons.prems(1) a]
  have w1: "wfR h1 s1"
    and st1: "stateOf h1 s1 =
           (stateOf h s)\<lparr>nextId := nextId (stateOf h s) + 1,
              items := items (stateOf h s) @
                [pendingItem (nextId (stateOf h s)) (entry_text e) (entry_group e)]\<rparr>"
    by simp_all
  from Cons.prems(2) a have l: "batchLoopR es h1 s1 = (h', s')" by simp
  from Cons.IH [OF w1 l] st1 show ?case by (simp add: Let_def)
qed

lemma findItemR_refines:
  "distinct refs \<Longrightarrow> \<forall>r \<in> set refs. objects h r \<noteq> None \<Longrightarrow>
   (case List.find (\<lambda>r. case objects h r of None \<Rightarrow> False | Some item \<Rightarrow> item_id item = i) refs of
      None \<Rightarrow> List.find (\<lambda>it. item_id it = i) (deref h refs) = None
    | Some r \<Rightarrow>
        (\<exists>item. objects h r = Some item \<and>
           List.find (\<lambda>it. item_id it = i) (deref h refs) = Some item \<and>
           deref (h\<lparr>objects := (objects h)(r \<mapsto> item\<lparr>status := st, reason := rs\<rparr>)\<rparr>) refs =
             assignItem i st rs (deref h refs)))"
proof (induction refs)
  case Nil
  show ?case by (simp add: deref_def)
next
  case (Cons x refs)
  from Cons.prems obtain item where x: "objects h x = Some item" by auto
  have d: "distinct refs" and v: "\<forall>r \<in> set refs. objects h r \<noteq> None" and nx: "x \<notin> set refs"
    using Cons.prems by auto
  have dc: "deref h (x # refs) = item # deref h refs"
    using x by (simp add: deref_def)
  show ?case
  proof (cases "item_id item = i")
    case True
    have "deref (h\<lparr>objects := (objects h)(x \<mapsto> item\<lparr>status := st, reason := rs\<rparr>)\<rparr>) refs
          = deref h refs"
      using nx by (intro deref_cong) auto
    then have "deref (h\<lparr>objects := (objects h)(x \<mapsto> item\<lparr>status := st, reason := rs\<rparr>)\<rparr>) (x # refs)
          = item\<lparr>status := st, reason := rs\<rparr> # deref h refs"
      by (simp add: deref_def)
    with True x dc show ?thesis by simp
  next
    case False
    note ih = Cons.IH [OF d v]
    show ?thesis
    proof (cases "List.find (\<lambda>r. case objects h r of None \<Rightarrow> False | Some item \<Rightarrow> item_id item = i) refs")
      case None
      with ih False x dc show ?thesis by simp
    next
      case (Some r)
      with ih obtain it where it: "objects h r = Some it"
        "List.find (\<lambda>it. item_id it = i) (deref h refs) = Some it"
        "deref (h\<lparr>objects := (objects h)(r \<mapsto> it\<lparr>status := st, reason := rs\<rparr>)\<rparr>) refs =
             assignItem i st rs (deref h refs)"
        by auto
      from Some have "r \<in> set refs" by (auto simp add: find_Some_iff)
      with nx have rx: "r \<noteq> x" by auto
      have "deref (h\<lparr>objects := (objects h)(r \<mapsto> it\<lparr>status := st, reason := rs\<rparr>)\<rparr>) (x # refs)
            = item # assignItem i st rs (deref h refs)"
        using rx x it(3) by (simp add: deref_def)
      with Some False x dc it show ?thesis by simp
    qed
  qed
qed

lemma respond_agrees:
  assumes "wfR h s" and "stateOf h s = v"
  shows "agrees (respond h s act err) (v, \<lparr>content = c, details = makeDetails v act err\<rparr>)"
proof -
  obtain h' s' d where r: "respond h s act err = (h', s', d)"
    by (cases "respond h s act err") auto
  from respond_refines [OF assms(1) r] assms(2) show ?thesis
    by (simp add: agrees_def r makeDetails_def)
qed

lemma newArray_empty_wf:
  "newArray [] h = (a, h') \<Longrightarrow>
   wfR h' \<lparr>r_items = a, r_nextId = n, r_listName = l\<rparr> \<and>
   stateOf h' \<lparr>r_items = a, r_nextId = n, r_listName = l\<rparr> = \<lparr>items = [], nextId = n, listName = l\<rparr>"
  by (auto simp add: newArray_def wfR_def stateOf_def itemsAt_def arrayAt_def deref_def)

lemma agrees_create: "agrees (execCreateR h s p) (execCreate (stateOf h s) p)"
proof -
  obtain a h1 where n: "newArray [] h = (a, h1)" by (cases "newArray [] h") auto
  from newArray_empty_wf [OF n, of 1 "p_name p"]
  have w: "wfR h1 \<lparr>r_items = a, r_nextId = 1, r_listName = p_name p\<rparr>"
    and sv: "stateOf h1 \<lparr>r_items = a, r_nextId = 1, r_listName = p_name p\<rparr> =
             \<lparr>items = [], nextId = 1, listName = p_name p\<rparr>"
    by simp_all
  from respond_agrees [OF w sv] show ?thesis
    by (simp add: execCreateR_def execCreate_def n Let_def)
qed

lemma agrees_clear: "agrees (execClearR h s p) (execClear (stateOf h s) p)"
proof -
  obtain a h1 where n: "newArray [] h = (a, h1)" by (cases "newArray [] h") auto
  have l: "listName (stateOf h s) = r_listName s" by (simp add: stateOf_def)
  from newArray_empty_wf [OF n, of 1 "r_listName s"]
  have w: "wfR h1 \<lparr>r_items = a, r_nextId = 1, r_listName = r_listName s\<rparr>"
    and sv: "stateOf h1 \<lparr>r_items = a, r_nextId = 1, r_listName = r_listName s\<rparr> =
             \<lparr>items = [], nextId = 1, listName = r_listName s\<rparr>"
    by simp_all
  from respond_agrees [OF w sv] show ?thesis
    by (simp add: execClearR_def execClear_def n l Let_def)
qed

lemma agrees_add:
  assumes "wfR h s"
  shows "agrees (execAddR h s p) (execAdd (stateOf h s) p)"
proof (cases "p_text p")
  case None
  with assms show ?thesis by (simp add: execAddR_def execAdd_def respond_agrees)
next
  case (Some t)
  show ?thesis
  proof (cases "t = []")
    case True
    with Some assms show ?thesis by (simp add: execAddR_def execAdd_def respond_agrees)
  next
    case False
    obtain h1 s1 where a: "addItemR h s t (p_group p) = (h1, s1)"
      by (cases "addItemR h s t (p_group p)") auto
    from addItemR_refines [OF assms a] have w: "wfR h1 s1"
      and st: "stateOf h1 s1 =
           (stateOf h s)\<lparr>nextId := nextId (stateOf h s) + 1,
              items := items (stateOf h s) @ [pendingItem (nextId (stateOf h s)) t (p_group p)]\<rparr>"
      by simp_all
    from respond_agrees [OF w st] Some False a show ?thesis
      by (simp add: execAddR_def execAdd_def Let_def)
  qed
qed

lemma agrees_batch:
  assumes "wfR h s"
  shows "agrees (execBatchR h s p) (execBatch (stateOf h s) p)"
proof (cases "p_items p")
  case None
  with assms show ?thesis by (simp add: execBatchR_def execBatch_def respond_agrees)
next
  case (Some es)
  show ?thesis
  proof (cases "es = []")
    case True
    with Some assms show ?thesis by (simp add: execBatchR_def execBatch_def respond_agrees)
  next
    case False
    obtain h1 s1 where l: "batchLoopR es h s = (h1, s1)"
      by (cases "batchLoopR es h s") auto
    obtain v added where b: "batchLoop es (stateOf h s) [] = (v, added)"
      by (cases "batchLoop es (stateOf h s) []") auto
    from batchLoopR_refines [OF assms l, of "[]"] b have w: "wfR h1 s1" and st: "stateOf h1 s1 = v"
      by simp_all
    from respond_agrees [OF w st] Some False l b show ?thesis
      by (simp add: execBatchR_def execBatch_def Let_def)
  qed
qed

lemma agrees_status:
  assumes "wfR h s"
  shows "agrees (execStatusR st h s p) (execStatus st (stateOf h s) p)"
proof (cases "p_id p")
  case None
  with assms show ?thesis by (simp add: execStatusR_def execStatus_def respond_agrees)
next
  case (Some i)
  from wfR_D [OF assms] obtain refs where
    r: "arrays h (r_items s) = Some refs" "r_items s < nextRef h" "distinct refs"
       "\<forall>r \<in> set refs. r < nextRef h \<and> objects h r \<noteq> None"
    by blast
  then have v: "\<forall>r \<in> set refs. objects h r \<noteq> None" by simp
  have ar: "arrayAt h (r_items s) = refs" using r(1) by (simp add: arrayAt_def)
  have its: "items (stateOf h s) = deref h refs" by (simp add: stateOf_def itemsAt_def ar)
  note f = findItemR_refines [OF r(3) v, where i = i and st = st and rs = "p_reason p"]
  show ?thesis
  proof (cases "findItemR h s i")
    case None
    with f have "findItem (stateOf h s) i = None"
      by (simp add: findItemR_def findItem_def ar its)
    with None Some assms show ?thesis
      by (simp add: execStatusR_def execStatus_def respond_agrees)
  next
    case (Some r0)
    with f obtain item where it: "objects h r0 = Some item"
      "findItem (stateOf h s) i = Some item"
      "deref (h\<lparr>objects := (objects h)(r0 \<mapsto> item\<lparr>status := st, reason := p_reason p\<rparr>)\<rparr>) refs =
         assignItem i st (p_reason p) (deref h refs)"
      by (auto simp add: findItemR_def findItem_def ar its)
    let ?h1 = "h\<lparr>objects := (objects h)(r0 \<mapsto> item\<lparr>status := st, reason := p_reason p\<rparr>)\<rparr>"
    have w: "wfR ?h1 s"
      using r by (intro wfR_I [of _ _ refs]) auto
    have sv: "stateOf ?h1 s =
        (stateOf h s)\<lparr>items := assignItem i st (p_reason p) (items (stateOf h s))\<rparr>"
      using r(1) it(3) by (simp add: stateOf_def itemsAt_def arrayAt_def)
    from respond_agrees [OF w sv] Some \<open>p_id p = Some i\<close> it(1,2) show ?thesis
      by (simp add: execStatusR_def execStatus_def Let_def)
  qed
qed

lemma agrees_execute:
  assumes "wfR h s"
  shows "agrees (executeR h s p) (execute (stateOf h s) p)"
  unfolding executeR_def execute_def
  using assms
  by (simp add: agrees_create agrees_clear agrees_add agrees_batch agrees_status respond_agrees
      execList_def execSummary_def execDefault_def Let_def split: option.split)


lemma session_calls:
  "wfR h s \<Longrightarrow> session h s branch (map Call ps) = (h', s', branch') \<Longrightarrow>
   wfR h' s' \<and> stateOf h' s' = replayFrom (stateOf h s) ps"
proof (induction ps arbitrary: h s branch)
  case Nil
  then show ?case by (simp add: replayFrom_def)
next
  case (Cons p ps)
  obtain h1 s1 d where e: "executeR h s p = (h1, s1, d)"
    by (cases "executeR h s p") auto
  from agrees_execute [OF Cons.prems(1), of p] e
  have w: "wfR h1 s1" and sv: "stateOf h1 s1 = fst (execute (stateOf h s) p)"
    by (simp_all add: agrees_def)
  from Cons.prems(2) e have "session h1 s1 (branch @ [recordR d]) (map Call ps) = (h', s', branch')"
    by simp
  from Cons.IH [OF w this] sv show ?case by (simp add: replayFrom_def)
qed

lemma initR_wf: "wfR (fst initR) (snd initR) \<and> stateOf (fst initR) (snd initR) = emptyState"
  by (simp add: initR_def newArray_def emptyHeap_def wfR_def stateOf_def itemsAt_def arrayAt_def
      deref_def emptyState_def)

lemma sessionState_calls: "sessionState (map Call ps) = replay ps"
proof -
  obtain h0 s0 where i: "initR = (h0, s0)" by (cases initR) auto
  from initR_wf have w: "wfR h0 s0" and e: "stateOf h0 s0 = emptyState"
    unfolding i by simp_all
  obtain h s b where r: "session h0 s0 [] (map Call ps) = (h, s, b)"
    by (cases "session h0 s0 [] (map Call ps)") auto
  from session_calls [OF w r] e show ?thesis
    by (simp add: sessionState_def i r replay_def)
qed

text \<open>
  C1. The records on the branch do not stay what they were. \<^verbatim>\<open>makeDetails\<close> copies
  the array and shares the items, so a later status action shows through an earlier
  record; \<^verbatim>\<open>reconstructState\<close> takes the array of a record as the array of the
  state, so a later \<^verbatim>\<open>add\<close> appends to the record itself. After \<^verbatim>\<open>add a\<close>,
  \<^verbatim>\<open>done 1\<close> and a move of the tip back to the record of \<^verbatim>\<open>add a\<close>, that
  record is the branch and \<^verbatim>\<open>reconstructState\<close> yields the item with status done;
  after \<^verbatim>\<open>add a\<close>, \<^verbatim>\<open>add b\<close>, a move back to the first record,
  \<^verbatim>\<open>add c\<close> and the same move again, it yields two items with \<^verbatim>\<open>nextId\<close> 2.
  Replaying the one recorded action \<^verbatim>\<open>add a\<close> from the default state yields one
  pending item and \<^verbatim>\<open>nextId\<close> 2.
\<close>

theorem reconstruct_sees_later_calls:
  "sessionActions [Call ((request ''add'')\<lparr>p_text := Some ''a''\<rparr>),
                   Call ((request ''done'')\<lparr>p_id := Some 1\<rparr>), Moved 1] = [''add''] \<and>
   sessionState [Call ((request ''add'')\<lparr>p_text := Some ''a''\<rparr>),
                 Call ((request ''done'')\<lparr>p_id := Some 1\<rparr>), Moved 1] =
     \<lparr>items = [\<lparr>item_id = 1, item_text = ''a'', status = Done, reason = None,
                 item_group = None\<rparr>],
      nextId = 2, listName = None\<rparr> \<and>
   sessionActions [Call ((request ''add'')\<lparr>p_text := Some ''a''\<rparr>),
                   Call ((request ''add'')\<lparr>p_text := Some ''b''\<rparr>), Moved 1,
                   Call ((request ''add'')\<lparr>p_text := Some ''c''\<rparr>), Moved 1] = [''add''] \<and>
   sessionState [Call ((request ''add'')\<lparr>p_text := Some ''a''\<rparr>),
                 Call ((request ''add'')\<lparr>p_text := Some ''b''\<rparr>), Moved 1,
                 Call ((request ''add'')\<lparr>p_text := Some ''c''\<rparr>), Moved 1] =
     \<lparr>items = [\<lparr>item_id = 1, item_text = ''a'', status = Pending, reason = None,
                 item_group = None\<rparr>,
               \<lparr>item_id = 2, item_text = ''c'', status = Pending, reason = None,
                 item_group = None\<rparr>],
      nextId = 2, listName = None\<rparr> \<and>
   replay [(request ''add'')\<lparr>p_text := Some ''a''\<rparr>] =
     \<lparr>items = [\<lparr>item_id = 1, item_text = ''a'', status = Pending, reason = None,
                 item_group = None\<rparr>],
      nextId = 2, listName = None\<rparr>"
  by code_simp

subsection \<open>Batch\<close>

lemma upt_0_Suc_map: "map f [0..<Suc n] = f 0 # map (\<lambda>k. f (Suc k)) [0..<n]"
proof -
  have "[0..<Suc n] = 0 # map Suc [0..<n]"
    by (simp only: map_Suc_upt upt_conv_Cons [of 0 "Suc n"] zero_less_Suc)
  then show ?thesis by (simp add: comp_def del: upt_Suc)
qed

lemma batchLoop_eq:
  "batchLoop es state added =
     (state\<lparr>nextId := nextId state + int (length es),
             items := items state @
               map (\<lambda>k. pendingItem (nextId state + int k) (entry_text (es ! k)) (entry_group (es ! k)))
                 [0..<length es]\<rparr>,
      added @
        map (\<lambda>k. pendingItem (nextId state + int k) (entry_text (es ! k)) (entry_group (es ! k)))
          [0..<length es])"
proof (induction es arbitrary: state added)
  case Nil
  show ?case by simp
next
  case (Cons e es)
  show ?case
    by (simp add: Cons.IH Let_def upt_0_Suc_map add.assoc del: upt_Suc)
qed

text \<open>
  C7. For every state, \<^verbatim>\<open>batch\<close> with a non-empty list appends one item per entry,
  in the listed order, each pending and without reason, with the entry's text and group, the
  ids consecutive from the current \<^verbatim>\<open>nextId\<close>, which grows by the number of
  entries; no error is reported. With a missing or empty list the state is returned as it
  was (no item added, \<^verbatim>\<open>nextId\<close> unchanged) and the error is
  \<^verbatim>\<open>"items required"\<close>, the validation error of the code.
\<close>

theorem batch_appends:
  assumes "p_action params = ''batch''"
  shows "(\<forall>es. p_items params = Some es \<longrightarrow> es \<noteq> [] \<longrightarrow>
            items (fst (execute state params)) =
              items state @
              map (\<lambda>k. \<lparr>item_id = nextId state + int k, item_text = entry_text (es ! k),
                         status = Pending, reason = None, item_group = entry_group (es ! k)\<rparr>)
                [0..<length es] \<and>
            nextId (fst (execute state params)) = nextId state + int (length es) \<and>
            listName (fst (execute state params)) = listName state \<and>
            error (details (snd (execute state params))) = None) \<and>
         (p_items params = None \<or> p_items params = Some [] \<longrightarrow>
            fst (execute state params) = state \<and>
            error (details (snd (execute state params))) = Some ''items required'')"
  using assms
  by (auto simp add: execute_batch execBatch_def batchLoop_eq makeDetails_def pendingItem_def)

theorem batch_appends_witness:
  "p_action ((request ''batch'')\<lparr>p_items := Some [\<lparr>entry_text = ''a'', entry_group = None\<rparr>,
                                                 \<lparr>entry_text = ''b'', entry_group = None\<rparr>]\<rparr>) = ''batch'' \<and>
   items (fst (execute emptyState
     ((request ''batch'')\<lparr>p_items := Some [\<lparr>entry_text = ''a'', entry_group = None\<rparr>,
                                         \<lparr>entry_text = ''b'', entry_group = None\<rparr>]\<rparr>))) =
     [\<lparr>item_id = 1, item_text = ''a'', status = Pending, reason = None, item_group = None\<rparr>,
      \<lparr>item_id = 2, item_text = ''b'', status = Pending, reason = None, item_group = None\<rparr>] \<and>
   nextId (fst (execute emptyState
     ((request ''batch'')\<lparr>p_items := Some [\<lparr>entry_text = ''a'', entry_group = None\<rparr>,
                                         \<lparr>entry_text = ''b'', entry_group = None\<rparr>]\<rparr>))) = 3 \<and>
   p_items ((request ''batch'')\<lparr>p_items := Some []\<rparr>) = Some [] \<and>
   fst (execute emptyState ((request ''batch'')\<lparr>p_items := Some []\<rparr>)) = emptyState \<and>
   error (details (snd (execute emptyState ((request ''batch'')\<lparr>p_items := Some []\<rparr>)))) =
     Some ''items required''"
  using batch_appends [of "(request ''batch'')\<lparr>p_items := Some [\<lparr>entry_text = ''a'', entry_group = None\<rparr>,
                                         \<lparr>entry_text = ''b'', entry_group = None\<rparr>]\<rparr>" emptyState]
    batch_appends [of "(request ''batch'')\<lparr>p_items := Some []\<rparr>" emptyState]
  by (simp add: request_def emptyState_def upt_rec)

subsection \<open>The status actions\<close>

lemma assignItem_split:
  "i \<in> item_id ` set xs \<Longrightarrow>
   \<exists>before found after.
     xs = before @ found # after \<and> item_id found = i \<and> i \<notin> item_id ` set before \<and>
     List.find (\<lambda>it. item_id it = i) xs = Some found \<and>
     assignItem i st r xs = before @ found\<lparr>status := st, reason := r\<rparr> # after"
proof (induction xs)
  case Nil
  then show ?case by simp
next
  case (Cons x xs)
  show ?case
  proof (cases "item_id x = i")
    case True
    have "x # xs = [] @ x # xs \<and> item_id x = i \<and> i \<notin> item_id ` set [] \<and>
          List.find (\<lambda>it. item_id it = i) (x # xs) = Some x \<and>
          assignItem i st r (x # xs) = [] @ x\<lparr>status := st, reason := r\<rparr> # xs"
      using True by simp
    then show ?thesis by blast
  next
    case False
    with Cons.prems have "i \<in> item_id ` set xs" by auto
    from Cons.IH [OF this] obtain before found after where
      h: "xs = before @ found # after" "item_id found = i" "i \<notin> item_id ` set before"
         "List.find (\<lambda>it. item_id it = i) xs = Some found"
         "assignItem i st r xs = before @ found\<lparr>status := st, reason := r\<rparr> # after"
      by blast
    have "x # xs = (x # before) @ found # after \<and> item_id found = i \<and>
          i \<notin> item_id ` set (x # before) \<and>
          List.find (\<lambda>it. item_id it = i) (x # xs) = Some found \<and>
          assignItem i st r (x # xs) = (x # before) @ found\<lparr>status := st, reason := r\<rparr> # after"
      using False h by simp
    then show ?thesis by blast
  qed
qed

lemma findItem_None_iff: "findItem state i = None \<longleftrightarrow> i \<notin> item_id ` set (items state)"
  by (auto simp add: findItem_def find_None_iff)

lemma showInt_99: "showInt 99 = ''99''" by code_simp

text \<open>
  C6. For \<^verbatim>\<open>start\<close>, \<^verbatim>\<open>done\<close>, \<^verbatim>\<open>skip\<close>, \<^verbatim>\<open>block\<close> and
  \<^verbatim>\<open>reset\<close>, with the status each maps to: when the id is omitted the state is
  unchanged and the error is \<^verbatim>\<open>"id required"\<close> (the validation error); when no
  item has the id the state is unchanged and the error is \<^verbatim>\<open>"#<id> not found"\<close>
  (the not-found error); when an item has the id, the first such item gets the mapped status
  and the supplied reason (none when none is supplied), whatever its status and reason
  were, every other item and \<^verbatim>\<open>nextId\<close> and \<^verbatim>\<open>listName\<close> stay, and no
  error is reported.
\<close>

theorem status_actions:
  assumes "(p_action params, st) \<in> set [(''start'', In_progress), (''done'', Done),
             (''skip'', Skipped), (''block'', Blocked), (''reset'', Pending)]"
  shows "(p_id params = None \<longrightarrow>
            fst (execute state params) = state \<and>
            error (details (snd (execute state params))) = Some ''id required'') \<and>
         (\<forall>i. p_id params = Some i \<longrightarrow> i \<notin> item_id ` set (items state) \<longrightarrow>
            fst (execute state params) = state \<and>
            error (details (snd (execute state params))) = Some (''#'' @ showInt i @ '' not found'')) \<and>
         (\<forall>i. p_id params = Some i \<longrightarrow> i \<in> item_id ` set (items state) \<longrightarrow>
            (\<exists>before found after.
               items state = before @ found # after \<and> item_id found = i \<and>
               i \<notin> item_id ` set before \<and>
               items (fst (execute state params)) =
                 before @ found\<lparr>status := st, reason := p_reason params\<rparr> # after) \<and>
            nextId (fst (execute state params)) = nextId state \<and>
            listName (fst (execute state params)) = listName state \<and>
            error (details (snd (execute state params))) = None)"
proof -
  from assms have sm: "statusMap (p_action params) = Some st"
    by (auto simp add: statusMap_def)
  have ex: "execute state params = execStatus st state params"
    using sm by (rule execute_status)
  have a: "p_id params = None \<longrightarrow>
            fst (execute state params) = state \<and>
            error (details (snd (execute state params))) = Some ''id required''"
    by (simp add: ex execStatus_def makeDetails_def)
  have b: "\<forall>i. p_id params = Some i \<longrightarrow> i \<notin> item_id ` set (items state) \<longrightarrow>
            fst (execute state params) = state \<and>
            error (details (snd (execute state params))) = Some (''#'' @ showInt i @ '' not found'')"
    by (simp add: ex execStatus_def makeDetails_def findItem_None_iff [symmetric])
  have c: "(\<exists>before found after.
               items state = before @ found # after \<and> item_id found = i \<and>
               i \<notin> item_id ` set before \<and>
               items (fst (execute state params)) =
                 before @ found\<lparr>status := st, reason := p_reason params\<rparr> # after) \<and>
            nextId (fst (execute state params)) = nextId state \<and>
            listName (fst (execute state params)) = listName state \<and>
            error (details (snd (execute state params))) = None"
    if i: "p_id params = Some i" and mem: "i \<in> item_id ` set (items state)" for i
  proof -
    from assignItem_split [OF mem, of st "p_reason params"] obtain before found after where
      h: "items state = before @ found # after" "item_id found = i"
         "i \<notin> item_id ` set before"
         "List.find (\<lambda>it. item_id it = i) (items state) = Some found"
         "assignItem i st (p_reason params) (items state) =
            before @ found\<lparr>status := st, reason := p_reason params\<rparr> # after"
      by blast
    have f: "findItem state i = Some found" using h(4) by (simp add: findItem_def)
    have e: "execute state params =
       (state\<lparr>items := assignItem i st (p_reason params) (items state)\<rparr>,
        \<lparr>content = ''#'' @ showInt (item_id found) @
            [CHR '' '', CHR 0xE2, CHR 0x86, CHR 0x92, CHR '' ''] @ statusName st @
            whenSet (p_reason params) (\<lambda>r. '' ('' @ r @ '')''),
         details = makeDetails (state\<lparr>items := assignItem i st (p_reason params) (items state)\<rparr>)
                     (p_action params) None\<rparr>)"
      by (simp add: ex execStatus_def i f Let_def)
    have "items (fst (execute state params)) =
            before @ found\<lparr>status := st, reason := p_reason params\<rparr> # after"
      by (simp add: e h(5))
    with h(1,2,3) have "\<exists>before found after.
               items state = before @ found # after \<and> item_id found = i \<and>
               i \<notin> item_id ` set before \<and>
               items (fst (execute state params)) =
                 before @ found\<lparr>status := st, reason := p_reason params\<rparr> # after"
      by blast
    then show ?thesis by (simp add: e makeDetails_def)
  qed
  from a b c show ?thesis by blast
qed

theorem status_actions_witness:
  "(p_action ((request ''reset'')\<lparr>p_id := Some 1\<rparr>), Pending) \<in>
     set [(''start'', In_progress), (''done'', Done), (''skip'', Skipped), (''block'', Blocked),
          (''reset'', Pending)] \<and>
   1 \<in> item_id ` set (items \<lparr>items = [\<lparr>item_id = 1, item_text = ''t'', status = Skipped,
                     reason = Some ''flaky env'', item_group = None\<rparr>], nextId = 2, listName = None\<rparr>) \<and>
   items (fst (execute
      \<lparr>items = [\<lparr>item_id = 1, item_text = ''t'', status = Skipped,
                 reason = Some ''flaky env'', item_group = None\<rparr>], nextId = 2, listName = None\<rparr>
      ((request ''reset'')\<lparr>p_id := Some 1\<rparr>))) =
     [\<lparr>item_id = 1, item_text = ''t'', status = Pending, reason = None, item_group = None\<rparr>] \<and>
   (p_action ((request ''done'')\<lparr>p_id := Some 99\<rparr>), Done) \<in>
     set [(''start'', In_progress), (''done'', Done), (''skip'', Skipped), (''block'', Blocked),
          (''reset'', Pending)] \<and>
   99 \<notin> item_id ` set (items \<lparr>items = [\<lparr>item_id = 1, item_text = ''t'', status = Skipped,
                     reason = Some ''flaky env'', item_group = None\<rparr>], nextId = 2, listName = None\<rparr>) \<and>
   error (details (snd (execute
      \<lparr>items = [\<lparr>item_id = 1, item_text = ''t'', status = Skipped,
                 reason = Some ''flaky env'', item_group = None\<rparr>], nextId = 2, listName = None\<rparr>
      ((request ''done'')\<lparr>p_id := Some 99\<rparr>)))) = Some ''#99 not found'' \<and>
   p_id (request ''start'') = None \<and>
   error (details (snd (execute emptyState (request ''start'')))) = Some ''id required''"
proof -
  let ?S = "\<lparr>items = [\<lparr>item_id = 1, item_text = ''t'', status = Skipped,
                 reason = Some ''flaky env'', item_group = None\<rparr>], nextId = 2, listName = None\<rparr>"
  have r: "items (fst (execute ?S ((request ''reset'')\<lparr>p_id := Some 1\<rparr>))) =
     [\<lparr>item_id = 1, item_text = ''t'', status = Pending, reason = None, item_group = None\<rparr>]"
    using status_actions [of "(request ''reset'')\<lparr>p_id := Some 1\<rparr>" Pending ?S]
    by (auto simp add: request_def Cons_eq_append_conv)
  have d: "error (details (snd (execute ?S ((request ''done'')\<lparr>p_id := Some 99\<rparr>)))) = Some ''#99 not found''"
    using status_actions [of "(request ''done'')\<lparr>p_id := Some 99\<rparr>" Done ?S]
    by (simp add: request_def showInt_99)
  have s: "error (details (snd (execute emptyState (request ''start'')))) = Some ''id required''"
    using status_actions [of "request ''start''" In_progress emptyState]
    by (simp add: request_def)
  from r d s show ?thesis by (simp add: request_def)
qed

subsection \<open>Errors\<close>

lemma statusMap_None_iff:
  "statusMap a = None \<longleftrightarrow> a \<notin> set [''start'', ''done'', ''skip'', ''block'', ''reset'']"
  by (simp add: statusMap_def)

lemma error_create: "\<not> errorNonEmpty (details (snd (execCreate state params)))"
  by (simp add: errorNonEmpty_def execCreate_def makeDetails_def)

lemma error_add:
  "errorNonEmpty (details (snd (execAdd state params))) \<longleftrightarrow>
     (p_text params = None \<or> p_text params = Some [])"
  by (simp add: errorNonEmpty_def execAdd_def makeDetails_def Let_def split: option.split)

lemma error_add_same:
  assumes "errorNonEmpty (details (snd (execAdd state params)))"
  shows "fst (execAdd state params) = state"
proof -
  from assms have "p_text params = None \<or> p_text params = Some []"
    by (simp only: error_add)
  then show ?thesis by (auto simp add: execAdd_def)
qed

lemma error_batch:
  "errorNonEmpty (details (snd (execBatch state params))) \<longleftrightarrow>
     (p_items params = None \<or> p_items params = Some [])"
  by (simp add: errorNonEmpty_def execBatch_def makeDetails_def Let_def split: option.split prod.split)

lemma error_batch_same:
  assumes "errorNonEmpty (details (snd (execBatch state params)))"
  shows "fst (execBatch state params) = state"
proof -
  from assms have "p_items params = None \<or> p_items params = Some []"
    by (simp only: error_batch)
  then show ?thesis by (auto simp add: execBatch_def)
qed

lemma error_status:
  "errorNonEmpty (details (snd (execStatus st state params))) \<longleftrightarrow>
     (case p_id params of None \<Rightarrow> True | Some i \<Rightarrow> i \<notin> item_id ` set (items state))"
  by (simp add: errorNonEmpty_def execStatus_def makeDetails_def Let_def
      findItem_None_iff [symmetric] split: option.split)

lemma error_status_same:
  assumes "errorNonEmpty (details (snd (execStatus st state params)))"
  shows "fst (execStatus st state params) = state"
proof -
  from assms have "case p_id params of None \<Rightarrow> True | Some i \<Rightarrow> findItem state i = None"
    by (simp only: error_status findItem_None_iff)
  then show ?thesis by (auto simp add: execStatus_def split: option.splits)
qed

lemma error_list: "\<not> errorNonEmpty (details (snd (execList state params)))"
  by (simp add: errorNonEmpty_def execList_def makeDetails_def Let_def)

lemma error_summary: "\<not> errorNonEmpty (details (snd (execSummary state params)))"
  by (simp add: errorNonEmpty_def execSummary_def makeDetails_def)

lemma error_clear: "\<not> errorNonEmpty (details (snd (execClear state params)))"
  by (simp add: errorNonEmpty_def execClear_def makeDetails_def Let_def)

lemma error_default: "errorNonEmpty (details (snd (execDefault state params)))"
  by (simp add: errorNonEmpty_def execDefault_def makeDetails_def)

lemma default_same: "fst (execDefault state params) = state"
  by (simp add: execDefault_def)

lemma error_same:
  "errorNonEmpty (details (snd (execute state params))) \<Longrightarrow> fst (execute state params) = state"
  unfolding execute_def
  by (simp add: error_create error_add_same error_batch_same error_status_same error_list
      error_summary error_clear default_same split: if_splits option.splits)

lemma error_iff_fails:
  "errorNonEmpty (details (snd (execute state params))) \<longleftrightarrow> actionFails state params"
proof (cases "statusMap (p_action params)")
  case None
  then have n: "p_action params \<notin> set [''start'', ''done'', ''skip'', ''block'', ''reset'']"
    by (simp add: statusMap_None_iff)
  show ?thesis
    unfolding execute_def actionFails_def using None n
    by (simp add: error_create error_add error_batch error_list error_summary error_clear
        error_default)
next
  case (Some st)
  from statusMap_SomeD [OF Some]
  have m: "p_action params \<in> set [''start'', ''done'', ''skip'', ''block'', ''reset'']"
    by auto
  then have ne: "p_action params \<noteq> ''create''" "p_action params \<noteq> ''add''"
    "p_action params \<noteq> ''batch''"
    by auto
  show ?thesis
    unfolding actionFails_def using m ne
    by (simp add: execute_status [OF Some] error_status)
qed

text \<open>
  C4. For every state and every request: when the response carries a non-empty error, the
  state after the call has the \<^verbatim>\<open>items\<close>, \<^verbatim>\<open>nextId\<close> and
  \<^verbatim>\<open>listName\<close> of the state before it, and so has the snapshot in the response;
  and the error is non-empty exactly when the action fails, failure being the error
  conditions of the specification (\<^verbatim>\<open>actionFails\<close>).
\<close>

theorem error_non_mutation:
  "(errorNonEmpty (details (snd (execute state params))) \<longrightarrow>
      items (fst (execute state params)) = items state \<and>
      nextId (fst (execute state params)) = nextId state \<and>
      listName (fst (execute state params)) = listName state \<and>
      items (details (snd (execute state params))) = items state \<and>
      nextId (details (snd (execute state params))) = nextId state \<and>
      listName (details (snd (execute state params))) = listName state) \<and>
   (errorNonEmpty (details (snd (execute state params))) \<longleftrightarrow> actionFails state params)"
proof -
  have "snapshotOk (execute state params)" by (rule snapshot_execute)
  then show ?thesis
    by (auto simp add: snapshotOk_def error_iff_fails dest: error_same [unfolded error_iff_fails])
qed


theorem error_non_mutation_witness:
  "actionFails \<lparr>items = [pendingItem 1 ''a'' None], nextId = 2, listName = None\<rparr>
     ((request ''done'')\<lparr>p_id := Some 99\<rparr>) \<and>
   errorNonEmpty (details (snd (execute \<lparr>items = [pendingItem 1 ''a'' None], nextId = 2, listName = None\<rparr>
     ((request ''done'')\<lparr>p_id := Some 99\<rparr>)))) \<and>
   items (fst (execute \<lparr>items = [pendingItem 1 ''a'' None], nextId = 2, listName = None\<rparr>
     ((request ''done'')\<lparr>p_id := Some 99\<rparr>))) = [pendingItem 1 ''a'' None] \<and>
   nextId (fst (execute \<lparr>items = [pendingItem 1 ''a'' None], nextId = 2, listName = None\<rparr>
     ((request ''done'')\<lparr>p_id := Some 99\<rparr>))) = 2 \<and>
   \<not> actionFails emptyState ((request ''add'')\<lparr>p_text := Some ''a''\<rparr>) \<and>
   \<not> errorNonEmpty (details (snd (execute emptyState ((request ''add'')\<lparr>p_text := Some ''a''\<rparr>))))"
proof -
  let ?S = "\<lparr>items = [pendingItem 1 ''a'' None], nextId = 2, listName = None\<rparr>"
  have f: "actionFails ?S ((request ''done'')\<lparr>p_id := Some 99\<rparr>)"
    by (simp add: actionFails_def request_def pendingItem_def)
  have g: "\<not> actionFails emptyState ((request ''add'')\<lparr>p_text := Some ''a''\<rparr>)"
    by (simp add: actionFails_def request_def)
  from f g error_non_mutation [of ?S "(request ''done'')\<lparr>p_id := Some 99\<rparr>"]
    error_non_mutation [of emptyState "(request ''add'')\<lparr>p_text := Some ''a''\<rparr>"]
  show ?thesis by simp
qed

subsection \<open>The ids assigned over a run\<close>

lemma nextId_status: "nextId (fst (execStatus st state params)) = nextId state"
  by (simp add: execStatus_def Let_def split: option.split)

lemma step_add:
  "sorted_wrt (<) (map item_id (drop (length (items state)) (items (fst (execAdd state params))))) \<and>
   (\<forall>i \<in> set (map item_id (drop (length (items state)) (items (fst (execAdd state params))))).
      nextId state \<le> i \<and> i < nextId (fst (execAdd state params))) \<and>
   nextId state \<le> nextId (fst (execAdd state params))"
  by (simp add: execAdd_def Let_def pendingItem_def split: option.split)

lemma step_batch:
  "sorted_wrt (<) (map item_id (drop (length (items state)) (items (fst (execBatch state params))))) \<and>
   (\<forall>i \<in> set (map item_id (drop (length (items state)) (items (fst (execBatch state params))))).
      nextId state \<le> i \<and> i < nextId (fst (execBatch state params))) \<and>
   nextId state \<le> nextId (fst (execBatch state params))"
  by (auto simp add: execBatch_def batchLoop_eq pendingItem_def comp_def sorted_wrt_map
      split: option.split)

lemma assignedIds_step:
  assumes "p_action params \<noteq> ''clear''" and "p_action params \<noteq> ''create''"
  shows "sorted_wrt (<) (assignedIds state params) \<and>
         (\<forall>i \<in> set (assignedIds state params).
            nextId state \<le> i \<and> i < nextId (fst (execute state params))) \<and>
         nextId state \<le> nextId (fst (execute state params))"
proof -
  consider (add) "p_action params = ''add''" | (batch) "p_action params = ''batch''"
    | (status) st where "statusMap (p_action params) = Some st"
    | (other) "p_action params \<noteq> ''add''" "p_action params \<noteq> ''batch''"
        "statusMap (p_action params) = None"
    by (cases "statusMap (p_action params)") auto
  then show ?thesis
  proof cases
    case add
    then show ?thesis using step_add [of state params]
      by (simp add: assignedIds_def execute_add)
  next
    case batch
    then show ?thesis using step_batch [of state params]
      by (simp add: assignedIds_def execute_batch)
  next
    case status
    from statusMap_SomeD [OF status] have "p_action params \<noteq> ''add''" "p_action params \<noteq> ''batch''"
      by auto
    then show ?thesis
      by (simp add: assignedIds_def execute_status [OF status] nextId_status)
  next
    case other
    with assms show ?thesis
      by (simp add: assignedIds_def execute_def execList_def execSummary_def execDefault_def Let_def)
  qed
qed

lemma assignedIdsOver_sorted:
  "\<forall>p \<in> set ps. p_action p \<noteq> ''clear'' \<and> p_action p \<noteq> ''create'' \<Longrightarrow>
   sorted_wrt (<) (assignedIdsOver state ps) \<and>
   (\<forall>i \<in> set (assignedIdsOver state ps). nextId state \<le> i)"
proof (induction ps arbitrary: state)
  case Nil
  show ?case by simp
next
  case (Cons p ps)
  from Cons.prems have p: "p_action p \<noteq> ''clear''" "p_action p \<noteq> ''create''"
    and ps: "\<forall>q \<in> set ps. p_action q \<noteq> ''clear'' \<and> p_action q \<noteq> ''create''"
    by simp_all
  note step = assignedIds_step [OF p, of state]
  note ih = Cons.IH [OF ps, of "fst (execute state p)"]
  from step ih show ?case
    by (fastforce simp add: sorted_wrt_append)
qed

lemma ids_create_add_clear_add:
  "assignedIdsOver (fst (execute emptyState (request ''create'')))
     [(request ''add'')\<lparr>p_text := Some ''a''\<rparr>, request ''clear'',
      (request ''add'')\<lparr>p_text := Some ''b''\<rparr>] = [1, 1]"
  by (simp add: assignedIds_def request_def emptyState_def execute_create execute_add execute_clear
      execCreate_def execAdd_def execClear_def Let_def pendingItem_def)

text \<open>
  C3, as the specification states it: over every run of actions after a \<^verbatim>\<open>create\<close>
  the ids assigned by \<^verbatim>\<open>add\<close> and \<^verbatim>\<open>batch\<close> are strictly increasing and
  never repeated, a \<^verbatim>\<open>clear\<close> between assignments included. The code resets
  \<^verbatim>\<open>nextId\<close> to 1 in \<^verbatim>\<open>clear\<close>: after \<^verbatim>\<open>create\<close>, the run
  \<^verbatim>\<open>add\<close>, \<^verbatim>\<open>clear\<close>, \<^verbatim>\<open>add\<close> assigns the ids 1 and 1.
\<close>

theorem ids_across_clear_counterexample:
  "\<not> (sorted_wrt (<) (assignedIdsOver (fst (execute emptyState (request ''create'')))
          [(request ''add'')\<lparr>p_text := Some ''a''\<rparr>, request ''clear'',
           (request ''add'')\<lparr>p_text := Some ''b''\<rparr>]) \<and>
       distinct (assignedIdsOver (fst (execute emptyState (request ''create'')))
          [(request ''add'')\<lparr>p_text := Some ''a''\<rparr>, request ''clear'',
           (request ''add'')\<lparr>p_text := Some ''b''\<rparr>]))"
  unfolding ids_create_add_clear_add by simp


text \<open>
  C3, amended: over every run of actions after a \<^verbatim>\<open>create\<close> that holds no
  \<^verbatim>\<open>clear\<close> (and no further \<^verbatim>\<open>create\<close>, which starts the next list), the
  ids assigned by \<^verbatim>\<open>add\<close> and \<^verbatim>\<open>batch\<close> are strictly increasing over the
  whole run, and no id is assigned twice.
\<close>

theorem ids_increasing_without_clear:
  assumes "p_action c = ''create''"
    and "\<forall>p \<in> set ps. p_action p \<noteq> ''clear'' \<and> p_action p \<noteq> ''create''"
  shows "sorted_wrt (<) (assignedIdsOver (fst (execute state c)) ps) \<and>
         distinct (assignedIdsOver (fst (execute state c)) ps)"
proof -
  from assignedIdsOver_sorted [OF assms(2), of "fst (execute state c)"]
  have s: "sorted_wrt (<) (assignedIdsOver (fst (execute state c)) ps)" by simp
  then have "distinct (assignedIdsOver (fst (execute state c)) ps)"
    by (simp add: strict_sorted_iff)
  with s show ?thesis by simp
qed

theorem ids_increasing_without_clear_witness:
  "p_action (request ''create'') = ''create'' \<and>
   p_action ((request ''add'')\<lparr>p_text := Some ''a''\<rparr>) \<noteq> ''clear'' \<and>
   p_action ((request ''add'')\<lparr>p_text := Some ''a''\<rparr>) \<noteq> ''create'' \<and>
   p_action ((request ''batch'')\<lparr>p_items := Some [\<lparr>entry_text = ''b'', entry_group = None\<rparr>,
                                                 \<lparr>entry_text = ''c'', entry_group = None\<rparr>]\<rparr>) \<noteq> ''clear'' \<and>
   p_action ((request ''batch'')\<lparr>p_items := Some [\<lparr>entry_text = ''b'', entry_group = None\<rparr>,
                                                 \<lparr>entry_text = ''c'', entry_group = None\<rparr>]\<rparr>) \<noteq> ''create'' \<and>
   assignedIdsOver (fst (execute emptyState (request ''create'')))
     [(request ''add'')\<lparr>p_text := Some ''a''\<rparr>,
      (request ''batch'')\<lparr>p_items := Some [\<lparr>entry_text = ''b'', entry_group = None\<rparr>,
                                          \<lparr>entry_text = ''c'', entry_group = None\<rparr>]\<rparr>] = [1, 2, 3] \<and>
   sorted_wrt (<) (assignedIdsOver (fst (execute emptyState (request ''create'')))
     [(request ''add'')\<lparr>p_text := Some ''a''\<rparr>,
      (request ''batch'')\<lparr>p_items := Some [\<lparr>entry_text = ''b'', entry_group = None\<rparr>,
                                          \<lparr>entry_text = ''c'', entry_group = None\<rparr>]\<rparr>]) \<and>
   distinct (assignedIdsOver (fst (execute emptyState (request ''create'')))
     [(request ''add'')\<lparr>p_text := Some ''a''\<rparr>,
      (request ''batch'')\<lparr>p_items := Some [\<lparr>entry_text = ''b'', entry_group = None\<rparr>,
                                          \<lparr>entry_text = ''c'', entry_group = None\<rparr>]\<rparr>])"
proof -
  let ?a = "(request ''add'')\<lparr>p_text := Some ''a''\<rparr>"
  let ?b = "(request ''batch'')\<lparr>p_items := Some [\<lparr>entry_text = ''b'', entry_group = None\<rparr>,
                                          \<lparr>entry_text = ''c'', entry_group = None\<rparr>]\<rparr>"
  have h1: "p_action (request ''create'') = ''create''" by (simp add: request_def)
  have h2: "\<forall>p \<in> set [?a, ?b]. p_action p \<noteq> ''clear'' \<and> p_action p \<noteq> ''create''"
    by (simp add: request_def)
  have v: "assignedIdsOver (fst (execute emptyState (request ''create''))) [?a, ?b] = [1, 2, 3]"
    by (simp add: assignedIds_def request_def emptyState_def execute_create execute_add
        execute_batch execCreate_def execAdd_def execBatch_def Let_def pendingItem_def)
  from ids_increasing_without_clear [OF h1 h2, of emptyState] v h1 show ?thesis
    by (simp add: request_def)
qed

subsection \<open>The summary line\<close>

lemma fold_countStatus:
  "fold countStatus its counts st = counts st + statusCount st its"
  by (induction its arbitrary: counts) (simp_all add: countStatus_def statusCount_def)

lemma counts_statusCount: "fold countStatus its (\<lambda>_. 0) st = statusCount st its"
  by (simp add: fold_countStatus)

lemma statusCount_size: "statusCount st xs = size (filter_mset (\<lambda>it. status it = st) (mset xs))"
  unfolding statusCount_def by (simp only: mset_filter [symmetric] size_mset)

lemma statusCount_mset: "mset xs = mset ys \<Longrightarrow> statusCount st xs = statusCount st ys"
  by (simp only: statusCount_size)

lemma summaryLine_mset: "mset xs = mset ys \<Longrightarrow> summaryLine xs = summaryLine ys"
proof -
  assume m: "mset xs = mset ys"
  then have "length xs = length ys" by (rule mset_eq_length)
  moreover have "\<And>st. statusCount st xs = statusCount st ys" using m by (rule statusCount_mset)
  ultimately show ?thesis by (simp add: summaryLine_def)
qed


lemma push_if: "(if b then xs @ [y] else xs) = xs @ (if b then [y] else [])"
  by simp

lemma map_filter_Cons_if:
  "map f (filter P (x # xs)) = (if P x then [f x] else []) @ map f (filter P xs)"
  by simp

lemma summaryText_summaryLine: "summaryText its = summaryLine its"
  unfolding summaryText_def summaryLine_def Let_def counts_statusCount push_if map_filter_Cons_if
  by (simp split del: if_split cong: if_cong)


text \<open>
  C8. For every list of items, \<^verbatim>\<open>summaryText\<close> is the line of the specification
  (\<^verbatim>\<open>summaryLine\<close>): the total and \<^verbatim>\<open>" items: "\<close>, then the counts of done,
  in progress, pending, blocked and skipped items in this order, separated by
  \<^verbatim>\<open>", "\<close>, a status with count zero left out. The line does not depend on the
  order of the items: two lists with the same items have the same line.
\<close>

theorem summary_fixed_order:
  "summaryText its = summaryLine its \<and>
   (mset its' = mset its \<longrightarrow> summaryText its' = summaryText its)"
proof (intro conjI impI)
  show "summaryText its = summaryLine its"
    by (rule summaryText_summaryLine)
next
  assume "mset its' = mset its"
  then have "summaryLine its' = summaryLine its"
    by (rule summaryLine_mset)
  then show "summaryText its' = summaryText its"
    by (simp only: summaryText_summaryLine)
qed

theorem summary_fixed_order_witness:
  "mset [pendingItem 2 ''b'' None, (pendingItem 1 ''a'' None)\<lparr>status := Done\<rparr>,
         (pendingItem 3 ''c'' None)\<lparr>status := Done\<rparr>] =
   mset [(pendingItem 1 ''a'' None)\<lparr>status := Done\<rparr>, pendingItem 2 ''b'' None,
         (pendingItem 3 ''c'' None)\<lparr>status := Done\<rparr>] \<and>
   summaryText [pendingItem 2 ''b'' None, (pendingItem 1 ''a'' None)\<lparr>status := Done\<rparr>,
         (pendingItem 3 ''c'' None)\<lparr>status := Done\<rparr>] =
   summaryText [(pendingItem 1 ''a'' None)\<lparr>status := Done\<rparr>, pendingItem 2 ''b'' None,
         (pendingItem 3 ''c'' None)\<lparr>status := Done\<rparr>] \<and>
   summaryText [(pendingItem 1 ''a'' None)\<lparr>status := Done\<rparr>, pendingItem 2 ''b'' None,
         (pendingItem 3 ''c'' None)\<lparr>status := Done\<rparr>] = ''3 items: 2 done, 1 pending''"
proof -
  let ?xs = "[(pendingItem 1 ''a'' None)\<lparr>status := Done\<rparr>, pendingItem 2 ''b'' None,
         (pendingItem 3 ''c'' None)\<lparr>status := Done\<rparr>]"
  let ?ys = "[pendingItem 2 ''b'' None, (pendingItem 1 ''a'' None)\<lparr>status := Done\<rparr>,
         (pendingItem 3 ''c'' None)\<lparr>status := Done\<rparr>]"
  have m: "mset ?ys = mset ?xs" by simp
  have v: "summaryLine ?xs = ''3 items: 2 done, 1 pending''"
    by code_simp
  from summary_fixed_order [of ?xs ?ys] m v show ?thesis by simp
qed


subsection \<open>Texts of the items\<close>

text \<open>
  C5. \<^verbatim>\<open>add\<close> rejects an empty text, \<^verbatim>\<open>batch\<close> does not look at the texts
  of its entries: from the default state, a batch with one entry whose text is empty
  succeeds and leaves an item with an empty text.
\<close>

theorem batch_accepts_empty_text:
  "fst (execute emptyState
          ((request ''batch'')\<lparr>p_items := Some [\<lparr>entry_text = '''', entry_group = None\<rparr>]\<rparr>)) =
     \<lparr>items = [\<lparr>item_id = 1, item_text = '''', status = Pending, reason = None,
                 item_group = None\<rparr>],
      nextId = 2, listName = None\<rparr> \<and>
   error (details (snd (execute emptyState
          ((request ''batch'')\<lparr>p_items := Some [\<lparr>entry_text = '''', entry_group = None\<rparr>]\<rparr>)))) =
     None \<and>
   fst (execute emptyState ((request ''add'')\<lparr>p_text := Some ''''\<rparr>)) = emptyState \<and>
   error (details (snd (execute emptyState ((request ''add'')\<lparr>p_text := Some ''''\<rparr>)))) =
     Some ''text required''"
  by (simp add: request_def emptyState_def execute_batch execute_add execBatch_def execAdd_def
      makeDetails_def pendingItem_def Let_def)

end
